theory Spec2Isabelle
  imports Main "HOL-Library.Word"
begin

chapter \<open>The embedding\<close>

section \<open>Outcomes of Go calls\<close>

text \<open>
  A Go function of this library ends in one of three ways: it returns a value with a nil
  error, it returns a non-nil error (the library builds them with \<^verbatim>\<open>fmt.Errorf\<close> and
  \<^verbatim>\<open>errors.New\<close>, so an error is its message), or it panics at run time.
\<close>

datatype panic = DivideByZero | IndexOutOfRange | SliceBoundsOutOfRange | Uint128Overflow
  | NilPointerDereference

datatype 'a outcome = Ok 'a | Err string | Panic panic

definition andThen :: "'a outcome \<Rightarrow> ('a \<Rightarrow> 'b outcome) \<Rightarrow> 'b outcome" where
  "andThen r f = (case r of Ok v \<Rightarrow> f v | Err e \<Rightarrow> Err e | Panic p \<Rightarrow> Panic p)"

section \<open>Go integers\<close>

text \<open>
  \<^verbatim>\<open>int64\<close> and \<^verbatim>\<open>int32\<close> values are integers, and every arithmetic result is wrapped
  into the type's range as Go does. Go's \<^verbatim>\<open>/\<close> truncates toward zero and \<^verbatim>\<open>%\<close> has the
  sign of the dividend; both panic on a zero divisor.
\<close>

definition wrap64 :: "int \<Rightarrow> int" where
  "wrap64 x = (x + 2 ^ 63) mod 2 ^ 64 - 2 ^ 63"

definition wrap32 :: "int \<Rightarrow> int" where
  "wrap32 x = (x + 2 ^ 31) mod 2 ^ 32 - 2 ^ 31"

definition go_quot :: "int \<Rightarrow> int \<Rightarrow> int" where
  "go_quot a b = sgn a * sgn b * (\<bar>a\<bar> div \<bar>b\<bar>)"

definition go_rem :: "int \<Rightarrow> int \<Rightarrow> int" where
  "go_rem a b = a - b * go_quot a b"

definition div64 :: "int \<Rightarrow> int \<Rightarrow> int outcome" where
  "div64 a b = (if b = 0 then Panic DivideByZero else Ok (wrap64 (go_quot a b)))"

definition rem64 :: "int \<Rightarrow> int \<Rightarrow> int outcome" where
  "rem64 a b = (if b = 0 then Panic DivideByZero else Ok (wrap64 (go_rem a b)))"

section \<open>Decimal rendering (\<^verbatim>\<open>fmt.Sprintf("%d", n)\<close>, \<^verbatim>\<open>strconv.FormatInt(n, 10)\<close>)\<close>

definition digitChar :: "nat \<Rightarrow> char" where
  "digitChar d = ''0123456789'' ! d"

fun digitsOf :: "nat \<Rightarrow> string" where
  "digitsOf n = (if n < 10 then [digitChar n] else digitsOf (n div 10) @ [digitChar (n mod 10)])"

definition FormatInt :: "int \<Rightarrow> string" where
  "FormatInt i = (if i < 0 then CHR ''-'' # digitsOf (nat (- i)) else digitsOf (nat i))"

text \<open>
  The reading of a decimal string, written independently of \<open>FormatInt\<close>: the value of
  an optional minus sign followed by decimal digits.
\<close>

definition digitVal :: "char \<Rightarrow> nat" where
  "digitVal c = of_char c - 48"

definition decimalDigitsValue :: "string \<Rightarrow> nat" where
  "decimalDigitsValue s = foldl (\<lambda>a c. 10 * a + digitVal c) 0 s"

definition decimalValue :: "string \<Rightarrow> int" where
  "decimalValue s = (case s of [] \<Rightarrow> 0
     | c # r \<Rightarrow> if c = CHR ''-'' then - int (decimalDigitsValue r) else int (decimalDigitsValue s))"

type_synonym byte = "8 word"

text \<open>\<^verbatim>\<open>[]byte(s)\<close> of an ASCII string.\<close>

definition bytesOf :: "string \<Rightarrow> byte list" where
  "bytesOf s = map of_char s"

text \<open>
  The \<open>k\<close> little-endian bytes of the two's complement of an integer, as
  \<^verbatim>\<open>binary.LittleEndian.PutUint32\<close> and \<^verbatim>\<open>PutUint64\<close> write them.
\<close>

fun littleEndianBytes :: "nat \<Rightarrow> int \<Rightarrow> byte list" where
  "littleEndianBytes 0 v = []"
| "littleEndianBytes (Suc k) v = word_of_int v # littleEndianBytes k (v div 256)"

section \<open>Router (package router)\<close>

text \<open>
  \<^verbatim>\<open>SimpleRouter.GetBestPool\<close> walks \<^verbatim>\<open>r.pools\<close> in order and calls
  \<^verbatim>\<open>pool.Quote(ctx, solClient, tokenIn, amountIn)\<close> once on each. The parameter
  \<open>quote\<close> is the outcome of that call for a pool: \<open>Inl err\<close> for a non-nil error,
  \<open>Inr out\<close> for the quoted amount (a \<^verbatim>\<open>math.Int\<close>, unbounded). The loop state is the
  triple of \<^verbatim>\<open>best\<close> (nil is \<open>None\<close>), \<^verbatim>\<open>maxOut\<close> and the lines written by
  \<^verbatim>\<open>log.Printf\<close>.
\<close>

type_synonym 'p router_state = "'p option \<times> int \<times> string list"

fun quoteLoop :: "('p \<Rightarrow> string + int) \<Rightarrow> 'p list \<Rightarrow> 'p router_state \<Rightarrow> 'p router_state" where
  "quoteLoop quote [] st = st"
| "quoteLoop quote (pool # rest) (best, maxOut, logged) =
     (case quote pool of
        Inl err \<Rightarrow> quoteLoop quote rest (best, maxOut, logged @ [''error quoting: '' @ err])
      | Inr outAmount \<Rightarrow>
          if outAmount > maxOut then quoteLoop quote rest (Some pool, outAmount, logged)
          else quoteLoop quote rest (best, maxOut, logged))"

definition GetBestPool :: "('p \<Rightarrow> string + int) \<Rightarrow> 'p list \<Rightarrow> string list \<times> (string + 'p \<times> int)" where
  "GetBestPool quote pools =
     (case quoteLoop quote pools (None, 0, []) of
        (None, maxOut, logged) \<Rightarrow> (logged, Inl ''no route found'')
      | (Some best, maxOut, logged) \<Rightarrow> (logged, Inr (best, maxOut)))"

text \<open>The three pools of scenario S6: 5000, 6000 and one whose quote fails.\<close>

definition s6_quote :: "nat \<Rightarrow> string + int" where
  "s6_quote p = (if p = 0 then Inr 5000 else if p = 1 then Inr 6000 else Inl ''unhealthy'')"

section \<open>Whirlpool tick arrays (package orca)\<close>

definition TICK_ARRAY_SIZE :: int where
  "TICK_ARRAY_SIZE = 88"

definition MAX_TICK :: int where
  "MAX_TICK = 443636"

definition MIN_TICK :: int where
  "MIN_TICK = - 443636"

definition TICK_ARRAY_BITMAP_SIZE :: int where
  "TICK_ARRAY_BITMAP_SIZE = 512"

definition TICK_ARRAY_SEED :: string where
  "TICK_ARRAY_SEED = ''tick_array''"

definition ORCA_WHIRLPOOL_PROGRAM_ID :: string where
  "ORCA_WHIRLPOOL_PROGRAM_ID = ''whirLbMiicVdio4qvUfM5KAg6Ct8VwpYzGff3uctyCc''"

definition getWhirlpoolTickCount :: "int \<Rightarrow> int" where
  "getWhirlpoolTickCount tickSpacing = wrap64 (tickSpacing * TICK_ARRAY_SIZE)"

text \<open>\<^verbatim>\<open>return tick - tick%getWhirlpoolTickCount(tickSpacing)\<close>\<close>

definition getWhirlpoolTickArrayStartIndex :: "int \<Rightarrow> int \<Rightarrow> int outcome" where
  "getWhirlpoolTickArrayStartIndex tick tickSpacing =
     andThen (rem64 tick (getWhirlpoolTickCount tickSpacing)) (\<lambda>r. Ok (wrap64 (tick - r)))"

definition maxWhirlpoolTickInTickarrayBitmap :: "int \<Rightarrow> int" where
  "maxWhirlpoolTickInTickarrayBitmap tickSpacing =
     wrap64 (TICK_ARRAY_BITMAP_SIZE * getWhirlpoolTickCount tickSpacing)"

text \<open>\<^verbatim>\<open>whirlpoolTickRange\<close> returns the pair (maxTickBoundary, minTickBoundary).\<close>

definition whirlpoolTickRange :: "int \<Rightarrow> (int \<times> int) outcome" where
  "whirlpoolTickRange tickSpacing =
     (let maxTickBoundary = maxWhirlpoolTickInTickarrayBitmap tickSpacing;
          minTickBoundary = wrap64 (- maxTickBoundary)
      in andThen (if maxTickBoundary > MAX_TICK
                  then andThen (getWhirlpoolTickArrayStartIndex MAX_TICK tickSpacing)
                         (\<lambda>s. Ok (wrap64 (s + getWhirlpoolTickCount tickSpacing)))
                  else Ok maxTickBoundary) (\<lambda>maxTickBoundary'.
         andThen (if minTickBoundary < MIN_TICK
                  then getWhirlpoolTickArrayStartIndex MIN_TICK tickSpacing
                  else Ok minTickBoundary) (\<lambda>minTickBoundary'.
         Ok (maxTickBoundary', minTickBoundary'))))"

text \<open>
  \<^verbatim>\<open>getOfficialTickArrayStartIndex\<close>: the quotient is truncated and then lowered by one for
  a negative dividend with a remainder; the result is checked against two boundaries.
\<close>

definition getOfficialTickArrayStartIndex :: "int \<Rightarrow> int \<Rightarrow> int \<Rightarrow> int outcome" where
  "getOfficialTickArrayStartIndex tickIndex tickSpacing offset =
     (let dividend = tickIndex;
          divisor = wrap64 (tickSpacing * TICK_ARRAY_SIZE)
      in andThen (div64 dividend divisor) (\<lambda>q.
         andThen (if dividend \<ge> 0 then Ok q
                  else andThen (rem64 dividend divisor)
                         (\<lambda>r. if r \<noteq> 0 then Ok (wrap64 (q - 1)) else Ok q)) (\<lambda>realIndex.
         let startTickIndex = wrap64 (wrap64 (wrap64 (realIndex + offset) * tickSpacing) * TICK_ARRAY_SIZE);
             ticksInArray = wrap64 (TICK_ARRAY_SIZE * tickSpacing)
         in andThen (rem64 MIN_TICK ticksInArray) (\<lambda>m.
            let minTickIndex = wrap64 (MIN_TICK - wrap64 (m + ticksInArray));
                maxBoundary = wrap64 (MAX_TICK + ticksInArray);
                minBoundary = wrap64 (minTickIndex - ticksInArray)
            in if startTickIndex < minBoundary
               then Err (''startTickIndex is extremely out of bounds (too small) - ''
                         @ FormatInt startTickIndex @ '' (min boundary: '' @ FormatInt minBoundary @ '')'')
               else if startTickIndex > maxBoundary
               then Err (''startTickIndex is extremely out of bounds (too large) - ''
                         @ FormatInt startTickIndex @ '' (max boundary: '' @ FormatInt maxBoundary @ '')'')
               else Ok startTickIndex))))"

text \<open>
  \<^verbatim>\<open>DeriveWhirlpoolTickArrayPDA\<close>. A public key is its 32 bytes.
  \<^verbatim>\<open>solana.FindProgramAddress\<close> belongs to the Solana client library: it is the parameter
  \<open>findProgramAddress\<close>, which receives the seeds and the program id and returns an error
  or the address with its bump.
\<close>

type_synonym PublicKey = "byte list"

definition DeriveWhirlpoolTickArrayPDA ::
  "(byte list list \<Rightarrow> string \<Rightarrow> string + PublicKey \<times> byte) \<Rightarrow> PublicKey \<Rightarrow> int \<Rightarrow> PublicKey outcome" where
  "DeriveWhirlpoolTickArrayPDA findProgramAddress whirlpoolPubkey startTickIndex =
     (let startTickIndexStr = FormatInt startTickIndex;
          startTickIndexBytes = bytesOf startTickIndexStr;
          seeds = [bytesOf TICK_ARRAY_SEED, whirlpoolPubkey, startTickIndexBytes]
      in case findProgramAddress seeds ORCA_WHIRLPOOL_PROGRAM_ID of
           Inl err \<Rightarrow> Err (''failed to find program address for tick array: '' @ err)
         | Inr (pda, bump) \<Rightarrow> Ok pda)"

text \<open>A stand-in for the address derivation that returns the seeds it was given, joined.\<close>

definition seedsEcho :: "byte list list \<Rightarrow> string \<Rightarrow> string + PublicKey \<times> byte" where
  "seedsEcho seeds programId = Inr (concat seeds, 0)"

section \<open>Meteora DLMM utilities (package meteora)\<close>

definition MaxBinPerArray :: int where
  "MaxBinPerArray = 70"

definition ScaleOffset :: nat where
  "ScaleOffset = 64"

definition BasisPointMax :: nat where
  "BasisPointMax = 10000"

text \<open>
  \<^verbatim>\<open>BinIDToBinArrayIndex(binID int32) int64\<close>: the argument is a 32-bit word read as
  two's complement; the result is the \<^verbatim>\<open>int64\<close> value.
\<close>

definition BinIDToBinArrayIndex :: "32 word \<Rightarrow> int" where
  "BinIDToBinArrayIndex binID =
     (let quotient = wrap32 (go_quot (sint binID) MaxBinPerArray);
          remainder = wrap32 (go_rem (sint binID) MaxBinPerArray);
          quotient' = (if sint binID < 0 \<and> remainder \<noteq> 0 then wrap32 (quotient - 1) else quotient)
      in quotient')"

subsection \<open>128-bit unsigned integers (\<^verbatim>\<open>lukechampine.com/uint128\<close>)\<close>

text \<open>
  A \<^verbatim>\<open>uint128.Uint128\<close> is a natural number below \<open>2 ^ 128\<close>; \<^verbatim>\<open>Hi\<close> is its upper 64-bit
  half. Of that library: \<^verbatim>\<open>Lsh\<close> drops the bits shifted out, \<^verbatim>\<open>Add\<close> and \<^verbatim>\<open>Mul\<close> panic
  on overflow, \<^verbatim>\<open>Div\<close> panics on a zero divisor.
\<close>

definition u128_Hi :: "nat \<Rightarrow> nat" where
  "u128_Hi u = u div 2 ^ 64"

definition u128_Lsh :: "nat \<Rightarrow> nat \<Rightarrow> nat" where
  "u128_Lsh u n = (u * 2 ^ n) mod 2 ^ 128"

definition u128_Add :: "nat \<Rightarrow> nat \<Rightarrow> nat outcome" where
  "u128_Add u v = (if u + v < 2 ^ 128 then Ok (u + v) else Panic Uint128Overflow)"

definition u128_Mul :: "nat \<Rightarrow> nat \<Rightarrow> nat outcome" where
  "u128_Mul u v = (if u * v < 2 ^ 128 then Ok (u * v) else Panic Uint128Overflow)"

definition u128_Div :: "nat \<Rightarrow> nat \<Rightarrow> nat outcome" where
  "u128_Div u v = (if v = 0 then Panic DivideByZero else Ok (u div v))"

definition One_u128 :: nat where
  "One_u128 = u128_Lsh 1 ScaleOffset"

subsection \<open>\<^verbatim>\<open>Pow\<close> and \<^verbatim>\<open>GetPriceFromID\<close>\<close>

text \<open>
  The loop \<^verbatim>\<open>for exp > 0\<close> of \<^verbatim>\<open>Pow\<close>, on \<^verbatim>\<open>result\<close>, \<^verbatim>\<open>current\<close> and \<^verbatim>\<open>exp\<close>
  (a \<^verbatim>\<open>uint32\<close>, only ever shifted right).
\<close>

function PowLoop :: "nat \<Rightarrow> nat \<Rightarrow> nat \<Rightarrow> nat outcome" where
  "PowLoop result current exp =
     (if exp > 0 then
        (case (if exp mod 2 = 1
               then (if u128_Hi result > 0 \<and> u128_Hi current > 0
                     then Err ''multiplication overflow''
                     else u128_Mul result current)
               else Ok result) of
           Ok result' \<Rightarrow>
             (if exp div 2 > 0 then
                (if u128_Hi current > 0 then Err ''square overflow''
                 else (case u128_Mul current current of
                         Ok current' \<Rightarrow> PowLoop result' current' (exp div 2)
                       | Err e \<Rightarrow> Err e
                       | Panic p \<Rightarrow> Panic p))
              else PowLoop result' current (exp div 2))
         | Err e \<Rightarrow> Err e
         | Panic p \<Rightarrow> Panic p)
      else Ok result)"
  by pat_completeness auto
termination
  by (relation "measure (\<lambda>(result, current, exp). exp)") auto

text \<open>
  \<^verbatim>\<open>Pow(base, power int32)\<close>, named \<open>Pow_u128\<close> here (\<open>Pow\<close> is the power set in
  HOL), as \<^verbatim>\<open>One\<close> is \<open>One_u128\<close>. \<^verbatim>\<open>power = -power\<close> wraps in 32 bits, and
  \<^verbatim>\<open>uint32(power)\<close> reads the same bits unsigned.
\<close>

definition Pow_u128 :: "nat \<Rightarrow> 32 word \<Rightarrow> nat outcome" where
  "Pow_u128 base pwr =
     (if pwr = 0 then Ok One_u128
      else let isNegative = (sint pwr < 0);
               pwr' = (if isNegative then - pwr else pwr);
               exp = unat pwr'
           in case PowLoop One_u128 base exp of
                Ok result \<Rightarrow> if isNegative then Err ''negative power not implemented'' else Ok result
              | Err e \<Rightarrow> Err e
              | Panic p \<Rightarrow> Panic p)"

definition GetPriceFromID :: "32 word \<Rightarrow> 16 word \<Rightarrow> nat outcome" where
  "GetPriceFromID activeID binStep =
     (let bps = unat binStep;
          shiftedBps = u128_Lsh bps ScaleOffset;
          basisPointMax = BasisPointMax
      in if basisPointMax \<noteq> 0 then
           andThen (u128_Div shiftedBps basisPointMax) (\<lambda>bps'.
           andThen (u128_Add One_u128 bps') (\<lambda>base.
           case Pow_u128 base activeID of
             Ok result \<Rightarrow> Ok result
           | Err e \<Rightarrow> Err (''power calculation error: '' @ e)
           | Panic p \<Rightarrow> Panic p))
         else Err ''division by zero'')"

text \<open>The base \<^verbatim>\<open>GetPriceFromID\<close> hands to \<^verbatim>\<open>Pow\<close>: \<open>(1 << 64) + (binStep << 64) / 10000\<close>.\<close>

definition priceBase :: "16 word \<Rightarrow> nat" where
  "priceBase binStep = 2 ^ 64 + unat binStep * 2 ^ 64 div 10000"

subsection \<open>\<^verbatim>\<open>MulDiv\<close>, \<^verbatim>\<open>MulShr\<close>, \<^verbatim>\<open>ShlDiv\<close> on \<^verbatim>\<open>big.Int\<close>\<close>

text \<open>
  A \<^verbatim>\<open>*big.Int\<close> is an integer of any size. \<^verbatim>\<open>big.Int.DivMod\<close> is Euclidean division (the
  modulus is never negative) and panics on a zero divisor.
\<close>

datatype Rounding = RoundingUp | RoundingDown

definition big_DivMod :: "int \<Rightarrow> int \<Rightarrow> (int \<times> int) outcome" where
  "big_DivMod x y =
     (if y = 0 then Panic DivideByZero
      else let m = x mod \<bar>y\<bar> in Ok ((x - m) div y, m))"

definition MulDiv :: "int \<Rightarrow> int \<Rightarrow> int \<Rightarrow> Rounding \<Rightarrow> int outcome" where
  "MulDiv x y denominator rounding =
     (let prod = x * y
      in andThen (big_DivMod prod denominator) (\<lambda>(div', mod').
           if rounding = RoundingUp \<and> mod' \<noteq> 0 then Ok (div' + 1) else Ok div'))"

definition MulShr :: "int \<Rightarrow> int \<Rightarrow> 8 word \<Rightarrow> Rounding \<Rightarrow> int outcome" where
  "MulShr x y offset rounding =
     (let one = 1;
          scale = one * 2 ^ unat offset;
          denominator = scale
      in if denominator = 0 then Err ''shift overflow''
         else MulDiv x y denominator rounding)"

definition ShlDiv :: "int \<Rightarrow> int \<Rightarrow> 8 word \<Rightarrow> Rounding \<Rightarrow> int outcome" where
  "ShlDiv x y offset rounding =
     (let one = 1;
          scale = one * 2 ^ unat offset
      in if scale = 0 then Err ''shift overflow''
         else MulDiv x scale y rounding)"

section \<open>Account decoding (packages raydium and orca)\<close>

subsection \<open>Reading a Go byte slice\<close>

text \<open>
  The blob is a byte slice whose capacity is its length (a slice literal, or the buffer of
  a decoded account). \<^verbatim>\<open>data[i]\<close> panics unless \<open>i < len(data)\<close>, and
  \<^verbatim>\<open>data[a:b]\<close> panics unless \<open>a \<le> b \<le> cap(data)\<close>. A decoder keeps the blob and a
  running \<^verbatim>\<open>offset\<close>; a read returns its value and the advanced offset.
\<close>

definition indexAt :: "byte list \<Rightarrow> nat \<Rightarrow> byte outcome" where
  "indexAt data i = (if i < length data then Ok (data ! i) else Panic IndexOutOfRange)"

definition sliceAt :: "byte list \<Rightarrow> nat \<Rightarrow> nat \<Rightarrow> byte list outcome" where
  "sliceAt data a b =
     (if a \<le> b \<and> b \<le> length data then Ok (take (b - a) (drop a data))
      else Panic SliceBoundsOutOfRange)"

text \<open>The value of little-endian bytes: \<^verbatim>\<open>binary.LittleEndian.Uint16\<close>, \<^verbatim>\<open>Uint32\<close>,
  \<^verbatim>\<open>Uint64\<close> and \<^verbatim>\<open>uint128.FromBytes\<close>.\<close>

definition leValue :: "byte list \<Rightarrow> nat" where
  "leValue bs = foldr (\<lambda>b acc. unat b + 256 * acc) bs 0"

text \<open>\<^verbatim>\<open>int32(x)\<close> of a \<^verbatim>\<open>uint32\<close>.\<close>

definition int32_of_uint32 :: "nat \<Rightarrow> int" where
  "int32_of_uint32 x = (if x < 2 ^ 31 then int x else int x - 2 ^ 32)"

text \<open>\<^verbatim>\<open>v = data[offset]; offset += 1\<close>\<close>

definition readByte :: "byte list \<Rightarrow> nat \<Rightarrow> (nat \<times> nat) outcome" where
  "readByte data offset = andThen (indexAt data offset) (\<lambda>b. Ok (unat b, offset + 1))"

text \<open>\<^verbatim>\<open>v = data[offset : offset+k]; offset += k\<close>\<close>

definition readBytes :: "nat \<Rightarrow> byte list \<Rightarrow> nat \<Rightarrow> (byte list \<times> nat) outcome" where
  "readBytes k data offset = andThen (sliceAt data offset (offset + k)) (\<lambda>bs. Ok (bs, offset + k))"

definition readPublicKey :: "byte list \<Rightarrow> nat \<Rightarrow> (PublicKey \<times> nat) outcome" where
  "readPublicKey data offset = readBytes 32 data offset"

definition readUint :: "nat \<Rightarrow> byte list \<Rightarrow> nat \<Rightarrow> (nat \<times> nat) outcome" where
  "readUint k data offset = andThen (readBytes k data offset) (\<lambda>(bs, offset'). Ok (leValue bs, offset'))"

text \<open>A loop \<^verbatim>\<open>for i := 0; i < n; i++\<close> whose body is one read.\<close>

fun readMany :: "nat \<Rightarrow> (byte list \<Rightarrow> nat \<Rightarrow> ('a \<times> nat) outcome) \<Rightarrow> byte list \<Rightarrow> nat \<Rightarrow> ('a list \<times> nat) outcome" where
  "readMany 0 rd data offset = Ok ([], offset)"
| "readMany (Suc n) rd data offset =
     (case rd data offset of
        Ok (v, offset') \<Rightarrow>
          (case readMany n rd data offset' of
             Ok (vs, offset'') \<Rightarrow> Ok (v # vs, offset'')
           | Err e \<Rightarrow> Err e
           | Panic p \<Rightarrow> Panic p)
      | Err e \<Rightarrow> Err e
      | Panic p \<Rightarrow> Panic p)"

subsection \<open>\<^verbatim>\<open>CLMMPool.Decode\<close>\<close>

text \<open>
  Modelled from the spec: the declarations of the raydium \<^verbatim>\<open>TickArray\<close> and of its tick
  state are not among the sources. The specification gives a tick array a start tick
  index and its ticks, and a tick its index, its net liquidity (\<^verbatim>\<open>int64\<close>) and its gross
  liquidity (\<^verbatim>\<open>u128\<close>); these are the fields \<^verbatim>\<open>swapCompute\<close> reads.
\<close>

record TickState =
  Tick :: int
  LiquidityNet :: int
  LiquidityGross :: nat

record TickArray =
  StartTickIndex :: int
  Ticks :: "TickState list"

text \<open>
  The struct \<^verbatim>\<open>CLMMPool\<close>: the fields \<^verbatim>\<open>Decode\<close> assigns, then those set elsewhere
  (without the pointer \<^verbatim>\<open>exTickArrayBitmap\<close>, which \<^verbatim>\<open>swapCompute\<close> receives as an
  argument). Unsigned fields are natural numbers (the value of their bytes),
  \<^verbatim>\<open>TickCurrent\<close> is a signed integer, an array is a list, the map \<^verbatim>\<open>TickArrayCache\<close> is
  a partial function. The pool's \<^verbatim>\<open>OpenTime\<close> and \<^verbatim>\<open>FeeRate\<close> are \<open>PoolOpenTime\<close> and
  \<open>PoolFeeRate\<close> here, apart from the reward's and the Whirlpool's.
\<close>

record RewardInfo =
  RewardState :: nat
  OpenTime :: nat
  EndTime :: nat
  LastUpdateTime :: nat
  EmissionsPerSecondX64 :: nat
  RewardTotalEmissioned :: nat
  RewardClaimed :: nat
  TokenMint :: PublicKey
  TokenVault :: PublicKey
  Authority :: PublicKey
  RewardGrowthGlobalX64 :: nat

record CLMMPool =
  Bump :: nat
  AmmConfig :: PublicKey
  Owner :: PublicKey
  TokenMint0 :: PublicKey
  TokenMint1 :: PublicKey
  TokenVault0 :: PublicKey
  TokenVault1 :: PublicKey
  ObservationKey :: PublicKey
  MintDecimals0 :: nat
  MintDecimals1 :: nat
  TickSpacing :: nat
  Liquidity :: nat
  SqrtPriceX64 :: nat
  TickCurrent :: int
  ObservationIndex :: nat
  ObservationUpdateDuration :: nat
  FeeGrowthGlobal0X64 :: nat
  FeeGrowthGlobal1X64 :: nat
  ProtocolFeesToken0 :: nat
  ProtocolFeesToken1 :: nat
  SwapInAmountToken0 :: nat
  SwapOutAmountToken1 :: nat
  SwapInAmountToken1 :: nat
  SwapOutAmountToken0 :: nat
  Status :: nat
  RewardInfos :: "RewardInfo list"
  TickArrayBitmap :: "nat list"
  TotalFeesToken0 :: nat
  TotalFeesClaimedToken0 :: nat
  TotalFeesToken1 :: nat
  TotalFeesClaimedToken1 :: nat
  FundFeesToken0 :: nat
  FundFeesToken1 :: nat
  PoolOpenTime :: nat
  RecentEpoch :: nat
  PoolId :: PublicKey
  PoolFeeRate :: nat
  ExBitmapAddress :: PublicKey
  TickArrayCache :: "string \<rightharpoonup> TickArray"
  UserBaseAccount :: PublicKey
  UserQuoteAccount :: PublicKey

text \<open>"Parse core states".\<close>

definition parseCoreStates :: "CLMMPool \<Rightarrow> byte list \<Rightarrow> nat \<Rightarrow> (CLMMPool \<times> nat) outcome" where
  "parseCoreStates l data offset =
     andThen (readByte data offset) (\<lambda>(vBump, offset).
     andThen (readPublicKey data offset) (\<lambda>(vAmmConfig, offset).
     andThen (readPublicKey data offset) (\<lambda>(vOwner, offset).
     andThen (readPublicKey data offset) (\<lambda>(vTokenMint0, offset).
     andThen (readPublicKey data offset) (\<lambda>(vTokenMint1, offset).
     andThen (readPublicKey data offset) (\<lambda>(vTokenVault0, offset).
     andThen (readPublicKey data offset) (\<lambda>(vTokenVault1, offset).
     andThen (readPublicKey data offset) (\<lambda>(vObservationKey, offset).
     andThen (readByte data offset) (\<lambda>(vMintDecimals0, offset).
     andThen (readByte data offset) (\<lambda>(vMintDecimals1, offset).
     andThen (readUint 2 data offset) (\<lambda>(vTickSpacing, offset).
     Ok (l\<lparr>Bump := vBump, AmmConfig := vAmmConfig, Owner := vOwner,
            TokenMint0 := vTokenMint0, TokenMint1 := vTokenMint1,
            TokenVault0 := vTokenVault0, TokenVault1 := vTokenVault1,
            ObservationKey := vObservationKey,
            MintDecimals0 := vMintDecimals0, MintDecimals1 := vMintDecimals1,
            TickSpacing := vTickSpacing\<rparr>, offset))))))))))))"

text \<open>"Parse liquidity states", up to the seven padding bytes, which are skipped unread.\<close>

definition parseLiquidityStates :: "CLMMPool \<Rightarrow> byte list \<Rightarrow> nat \<Rightarrow> (CLMMPool \<times> nat) outcome" where
  "parseLiquidityStates l data offset =
     andThen (readUint 16 data offset) (\<lambda>(vLiquidity, offset).
     andThen (readUint 16 data offset) (\<lambda>(vSqrtPriceX64, offset).
     andThen (readUint 4 data offset) (\<lambda>(vTickCurrent, offset).
     andThen (readUint 2 data offset) (\<lambda>(vObservationIndex, offset).
     andThen (readUint 2 data offset) (\<lambda>(vObservationUpdateDuration, offset).
     andThen (readUint 16 data offset) (\<lambda>(vFeeGrowthGlobal0X64, offset).
     andThen (readUint 16 data offset) (\<lambda>(vFeeGrowthGlobal1X64, offset).
     andThen (readUint 8 data offset) (\<lambda>(vProtocolFeesToken0, offset).
     andThen (readUint 8 data offset) (\<lambda>(vProtocolFeesToken1, offset).
     andThen (readUint 16 data offset) (\<lambda>(vSwapInAmountToken0, offset).
     andThen (readUint 16 data offset) (\<lambda>(vSwapOutAmountToken1, offset).
     andThen (readUint 16 data offset) (\<lambda>(vSwapInAmountToken1, offset).
     andThen (readUint 16 data offset) (\<lambda>(vSwapOutAmountToken0, offset).
     andThen (readByte data offset) (\<lambda>(vStatus, offset).
     Ok (l\<lparr>Liquidity := vLiquidity, SqrtPriceX64 := vSqrtPriceX64,
            TickCurrent := int32_of_uint32 vTickCurrent,
            ObservationIndex := vObservationIndex,
            ObservationUpdateDuration := vObservationUpdateDuration,
            FeeGrowthGlobal0X64 := vFeeGrowthGlobal0X64, FeeGrowthGlobal1X64 := vFeeGrowthGlobal1X64,
            ProtocolFeesToken0 := vProtocolFeesToken0, ProtocolFeesToken1 := vProtocolFeesToken1,
            SwapInAmountToken0 := vSwapInAmountToken0, SwapOutAmountToken1 := vSwapOutAmountToken1,
            SwapInAmountToken1 := vSwapInAmountToken1, SwapOutAmountToken0 := vSwapOutAmountToken0,
            Status := vStatus\<rparr>, offset + 7)))))))))))))))"

text \<open>The body of the loop of "Parse reward states": one \<^verbatim>\<open>RewardInfos[i]\<close>.\<close>

definition readRewardInfo :: "byte list \<Rightarrow> nat \<Rightarrow> (RewardInfo \<times> nat) outcome" where
  "readRewardInfo data offset =
     andThen (readByte data offset) (\<lambda>(vRewardState, offset).
     andThen (readUint 8 data offset) (\<lambda>(vOpenTime, offset).
     andThen (readUint 8 data offset) (\<lambda>(vEndTime, offset).
     andThen (readUint 8 data offset) (\<lambda>(vLastUpdateTime, offset).
     andThen (readUint 16 data offset) (\<lambda>(vEmissionsPerSecondX64, offset).
     andThen (readUint 8 data offset) (\<lambda>(vRewardTotalEmissioned, offset).
     andThen (readUint 8 data offset) (\<lambda>(vRewardClaimed, offset).
     andThen (readPublicKey data offset) (\<lambda>(vTokenMint, offset).
     andThen (readPublicKey data offset) (\<lambda>(vTokenVault, offset).
     andThen (readPublicKey data offset) (\<lambda>(vAuthority, offset).
     andThen (readUint 16 data offset) (\<lambda>(vRewardGrowthGlobalX64, offset).
     Ok (\<lparr>RewardState = vRewardState, OpenTime = vOpenTime, EndTime = vEndTime,
           LastUpdateTime = vLastUpdateTime, EmissionsPerSecondX64 = vEmissionsPerSecondX64,
           RewardTotalEmissioned = vRewardTotalEmissioned, RewardClaimed = vRewardClaimed,
           TokenMint = vTokenMint, TokenVault = vTokenVault, Authority = vAuthority,
           RewardGrowthGlobalX64 = vRewardGrowthGlobalX64\<rparr>, offset))))))))))))"

text \<open>"Parse fee states" and "Parse other states"; the two paddings are skipped unread.\<close>

definition parseFeeAndOtherStates :: "CLMMPool \<Rightarrow> byte list \<Rightarrow> nat \<Rightarrow> (CLMMPool \<times> nat) outcome" where
  "parseFeeAndOtherStates l data offset =
     andThen (readUint 8 data offset) (\<lambda>(vTotalFeesToken0, offset).
     andThen (readUint 8 data offset) (\<lambda>(vTotalFeesClaimedToken0, offset).
     andThen (readUint 8 data offset) (\<lambda>(vTotalFeesToken1, offset).
     andThen (readUint 8 data offset) (\<lambda>(vTotalFeesClaimedToken1, offset).
     andThen (readUint 8 data offset) (\<lambda>(vFundFeesToken0, offset).
     andThen (readUint 8 data offset) (\<lambda>(vFundFeesToken1, offset).
     andThen (readUint 8 data offset) (\<lambda>(vOpenTime, offset).
     andThen (readUint 8 data offset) (\<lambda>(vRecentEpoch, offset).
     Ok (l\<lparr>TotalFeesToken0 := vTotalFeesToken0, TotalFeesClaimedToken0 := vTotalFeesClaimedToken0,
            TotalFeesToken1 := vTotalFeesToken1, TotalFeesClaimedToken1 := vTotalFeesClaimedToken1,
            FundFeesToken0 := vFundFeesToken0, FundFeesToken1 := vFundFeesToken1,
            PoolOpenTime := vOpenTime, RecentEpoch := vRecentEpoch\<rparr>,
         offset + 24 * 8 + 32 * 8)))))))))"

text \<open>The sections of \<^verbatim>\<open>Decode\<close> from offset 0, in order, after the discriminator is skipped.\<close>

definition CLMMPool_fields :: "CLMMPool \<Rightarrow> byte list \<Rightarrow> nat \<Rightarrow> CLMMPool outcome" where
  "CLMMPool_fields l data offset =
     andThen (parseCoreStates l data offset) (\<lambda>(l, offset).
     andThen (parseLiquidityStates l data offset) (\<lambda>(l, offset).
     andThen (readMany 3 readRewardInfo data offset) (\<lambda>(vRewardInfos, offset).
     andThen (readMany 16 (readUint 8) data offset) (\<lambda>(vTickArrayBitmap, offset).
     andThen (parseFeeAndOtherStates
                (l\<lparr>RewardInfos := vRewardInfos, TickArrayBitmap := vTickArrayBitmap\<rparr>) data offset)
       (\<lambda>(l, offset). Ok l)))))"

text \<open>
  \<^verbatim>\<open>Decode\<close> skips the 8-byte discriminator when the blob is longer than 8 bytes, reads
  the fields, and returns nil: the result is the updated pool with the error it returns,
  which is always nil (\<open>None\<close>).
\<close>

definition CLMMPool_Decode :: "CLMMPool \<Rightarrow> byte list \<Rightarrow> (CLMMPool \<times> string option) outcome" where
  "CLMMPool_Decode l data0 =
     (let data = (if length data0 > 8 then drop 8 data0 else data0);
          offset = 0
      in andThen (CLMMPool_fields l data offset) (\<lambda>l. Ok (l, None)))"

definition CLMMPool_Span :: nat where
  "CLMMPool_Span = 1544"

section \<open>The CLMM swap computation (package raydium)\<close>





text \<open>The variables the loop of \<^verbatim>\<open>swapCompute\<close> changes.\<close>

record swap_state =
  amountSpecifiedRemaining :: int
  amountCalculated :: int
  sqrtPriceX64 :: int
  tick :: int
  liquidity :: int
  tickArrayCurrent :: TickArray
  lastSavedTickArrayStartIndex :: int
  accounts :: "PublicKey list"
  t :: bool









subsection \<open>Two runs of the swap computation\<close>





subsection \<open>\<^verbatim>\<open>WhirlpoolPool.Decode\<close>\<close>

text \<open>
  The fields \<^verbatim>\<open>Decode\<close> assigns. Several carry the names of fields of \<open>CLMMPool\<close>;
  from here on the unqualified name is the Whirlpool field.
\<close>

record WhirlpoolRewardInfo =
  Mint :: PublicKey
  Vault :: PublicKey
  Authority :: PublicKey
  EmissionsPerSecondX64 :: nat
  GrowthGlobalX64 :: nat

record WhirlpoolPool =
  WhirlpoolsConfig :: PublicKey
  WhirlpoolBump :: "byte list"
  TickSpacing :: nat
  FeeTierIndexSeed :: "byte list"
  FeeRate :: nat
  ProtocolFeeRate :: nat
  Liquidity :: nat
  SqrtPrice :: nat
  TickCurrentIndex :: int
  ProtocolFeeOwedA :: nat
  ProtocolFeeOwedB :: nat
  TokenMintA :: PublicKey
  TokenVaultA :: PublicKey
  FeeGrowthGlobalA :: nat
  TokenMintB :: PublicKey
  TokenVaultB :: PublicKey
  FeeGrowthGlobalB :: nat
  RewardLastUpdatedTimestamp :: nat
  RewardInfos :: "WhirlpoolRewardInfo list"

text \<open>The body of the loop over the three reward infos.\<close>

definition readWhirlpoolRewardInfo :: "byte list \<Rightarrow> nat \<Rightarrow> (WhirlpoolRewardInfo \<times> nat) outcome" where
  "readWhirlpoolRewardInfo data offset =
     andThen (readPublicKey data offset) (\<lambda>(vMint, offset).
     andThen (readPublicKey data offset) (\<lambda>(vVault, offset).
     andThen (readPublicKey data offset) (\<lambda>(vAuthority, offset).
     andThen (readUint 16 data offset) (\<lambda>(vEmissionsPerSecondX64, offset).
     andThen (readUint 16 data offset) (\<lambda>(vGrowthGlobalX64, offset).
     Ok (\<lparr>Mint = vMint, Vault = vVault, Authority = vAuthority,
           EmissionsPerSecondX64 = vEmissionsPerSecondX64,
           GrowthGlobalX64 = vGrowthGlobalX64\<rparr>, offset))))))"

text \<open>The reads of \<^verbatim>\<open>Decode\<close>, in order, after the discriminator is skipped.\<close>

definition WhirlpoolPool_fields :: "WhirlpoolPool \<Rightarrow> byte list \<Rightarrow> nat \<Rightarrow> WhirlpoolPool outcome" where
  "WhirlpoolPool_fields pool data offset =
     andThen (readPublicKey data offset) (\<lambda>(vWhirlpoolsConfig, offset).
     andThen (readBytes 1 data offset) (\<lambda>(vWhirlpoolBump, offset).
     andThen (readUint 2 data offset) (\<lambda>(vTickSpacing, offset).
     andThen (readBytes 2 data offset) (\<lambda>(vFeeTierIndexSeed, offset).
     andThen (readUint 2 data offset) (\<lambda>(vFeeRate, offset).
     andThen (readUint 2 data offset) (\<lambda>(vProtocolFeeRate, offset).
     andThen (readUint 16 data offset) (\<lambda>(vLiquidity, offset).
     andThen (readUint 16 data offset) (\<lambda>(vSqrtPrice, offset).
     andThen (readUint 4 data offset) (\<lambda>(vTickCurrentIndex, offset).
     andThen (readUint 8 data offset) (\<lambda>(vProtocolFeeOwedA, offset).
     andThen (readUint 8 data offset) (\<lambda>(vProtocolFeeOwedB, offset).
     andThen (readPublicKey data offset) (\<lambda>(vTokenMintA, offset).
     andThen (readPublicKey data offset) (\<lambda>(vTokenVaultA, offset).
     andThen (readUint 16 data offset) (\<lambda>(vFeeGrowthGlobalA, offset).
     andThen (readPublicKey data offset) (\<lambda>(vTokenMintB, offset).
     andThen (readPublicKey data offset) (\<lambda>(vTokenVaultB, offset).
     andThen (readUint 16 data offset) (\<lambda>(vFeeGrowthGlobalB, offset).
     andThen (readUint 8 data offset) (\<lambda>(vRewardLastUpdatedTimestamp, offset).
     andThen (readMany 3 readWhirlpoolRewardInfo data offset) (\<lambda>(vRewardInfos, offset).
     Ok (pool\<lparr>WhirlpoolsConfig := vWhirlpoolsConfig, WhirlpoolBump := vWhirlpoolBump,
               TickSpacing := vTickSpacing, FeeTierIndexSeed := vFeeTierIndexSeed,
               FeeRate := vFeeRate, ProtocolFeeRate := vProtocolFeeRate,
               Liquidity := vLiquidity, SqrtPrice := vSqrtPrice,
               TickCurrentIndex := int32_of_uint32 vTickCurrentIndex,
               ProtocolFeeOwedA := vProtocolFeeOwedA, ProtocolFeeOwedB := vProtocolFeeOwedB,
               TokenMintA := vTokenMintA, TokenVaultA := vTokenVaultA,
               FeeGrowthGlobalA := vFeeGrowthGlobalA,
               TokenMintB := vTokenMintB, TokenVaultB := vTokenVaultB,
               FeeGrowthGlobalB := vFeeGrowthGlobalB,
               RewardLastUpdatedTimestamp := vRewardLastUpdatedTimestamp,
               RewardInfos := vRewardInfos\<rparr>))))))))))))))))))))"

definition WhirlpoolPool_Decode :: "WhirlpoolPool \<Rightarrow> byte list \<Rightarrow> (WhirlpoolPool \<times> string option) outcome" where
  "WhirlpoolPool_Decode pool data0 =
     (let data = (if length data0 > 8 then drop 8 data0 else data0);
          offset = 0
      in andThen (WhirlpoolPool_fields pool data offset) (\<lambda>pool. Ok (pool, None)))"

definition WHIRLPOOL_SIZE :: nat where
  "WHIRLPOOL_SIZE = 653"

subsection \<open>What a sequence of reads needs\<close>

text \<open>
  \<open>reads k s rd\<close>: the reader \<open>rd\<close> reads \<open>k\<close> bytes from the offset and then skips \<open>s\<close>
  unread. With \<open>k\<close> bytes at hand it returns a value and the offset advanced by
  \<open>k + s\<close>, the same whatever follows the blob; with fewer it panics. \<open>decodes k rd\<close> is
  the same for a decoder that returns only its value.
\<close>

definition reads :: "nat \<Rightarrow> nat \<Rightarrow> (byte list \<Rightarrow> nat \<Rightarrow> ('a \<times> nat) outcome) \<Rightarrow> bool" where
  "reads k s rd = (\<forall>data offset.
     (offset + k \<le> length data \<or> k = 0 \<longrightarrow>
        (\<exists>v. \<forall>extra. rd (data @ extra) offset = Ok (v, offset + k + s))) \<and>
     (k \<noteq> 0 \<and> \<not> offset + k \<le> length data \<longrightarrow> (\<exists>p. rd data offset = Panic p)))"

definition decodes :: "nat \<Rightarrow> (byte list \<Rightarrow> nat \<Rightarrow> 'a outcome) \<Rightarrow> bool" where
  "decodes k rd = (\<forall>data offset.
     (offset + k \<le> length data \<longrightarrow> (\<exists>v. \<forall>extra. rd (data @ extra) offset = Ok v)) \<and>
     (\<not> offset + k \<le> length data \<longrightarrow> (\<exists>p. rd data offset = Panic p)))"

chapter \<open>Verification\<close>

section \<open>Go integer arithmetic\<close>

lemma andThen_Ok [simp]: "andThen (Ok v) f = f v"
  by (simp add: andThen_def)

lemma andThen_Err [simp]: "andThen (Err e) f = Err e"
  by (simp add: andThen_def)

lemma andThen_Panic [simp]: "andThen (Panic p) f = Panic p"
  by (simp add: andThen_def)

lemma wrap64_id: "- (2 ^ 63) \<le> x \<Longrightarrow> x < 2 ^ 63 \<Longrightarrow> wrap64 x = x"
  by (simp add: wrap64_def)

lemma wrap32_id: "- (2 ^ 31) \<le> x \<Longrightarrow> x < 2 ^ 31 \<Longrightarrow> wrap32 x = x"
  by (simp add: wrap32_def)

lemma go_quot_nonneg: "0 \<le> a \<Longrightarrow> 0 < b \<Longrightarrow> go_quot a b = a div b"
  by (cases "a = 0") (simp_all add: go_quot_def)

lemma go_rem_nonneg: "0 \<le> a \<Longrightarrow> 0 < b \<Longrightarrow> go_rem a b = a mod b"
  by (simp add: go_rem_def go_quot_nonneg minus_mult_div_eq_mod)

lemma go_quot_neg: "a < 0 \<Longrightarrow> 0 < b \<Longrightarrow> go_quot a b = - ((- a) div b)"
  by (simp add: go_quot_def)

lemma go_rem_neg:
  assumes "a < 0" "0 < b"
  shows "go_rem a b = - ((- a) mod b)"
proof -
  have "(- a) mod b = - a - b * ((- a) div b)"
    by (simp add: minus_mult_div_eq_mod)
  then show ?thesis using assms by (simp add: go_rem_def go_quot_neg)
qed

text \<open>
  Lowering the truncated quotient by one, for a negative dividend with a remainder, gives
  the floored quotient.
\<close>

lemma floor_from_trunc:
  assumes "0 < b"
  shows "(if a < 0 \<and> go_rem a b \<noteq> 0 then go_quot a b - 1 else go_quot a b) = a div b"
proof (cases "a < 0")
  case False
  with assms show ?thesis by (simp add: go_quot_nonneg)
next
  case True
  have "a div b = (- (- a)) div b" by simp
  also have "\<dots> = (if (- a) mod b = 0 then - ((- a) div b) else - ((- a) div b) - 1)"
    using assms by (subst zdiv_zminus1_eq_if) simp_all
  finally show ?thesis using True assms by (simp add: go_quot_neg go_rem_neg)
qed

lemma div_le_self_int: "0 \<le> (a::int) \<Longrightarrow> 0 < b \<Longrightarrow> a div b \<le> a"
  using zdiv_mono2 [of a 1 b] by simp

lemma go_quot_bounds:
  assumes "0 < b"
  shows "\<bar>go_quot a b\<bar> \<le> \<bar>a\<bar>"
proof (cases "a < 0")
  case False
  then have "go_quot a b = a div b" using assms by (simp add: go_quot_nonneg)
  moreover have "a div b \<le> a" using False assms by (simp add: div_le_self_int)
  moreover have "0 \<le> a div b" using False assms by (simp add: pos_imp_zdiv_nonneg_iff)
  ultimately show ?thesis using False by simp
next
  case True
  then have "go_quot a b = - ((- a) div b)" using assms by (simp add: go_quot_neg)
  moreover have "(- a) div b \<le> - a" using True assms by (simp add: div_le_self_int)
  moreover have "0 \<le> (- a) div b" using True assms by (simp add: pos_imp_zdiv_nonneg_iff)
  ultimately show ?thesis using True by simp
qed

lemma go_quot_range:
  assumes "0 < b" "lo \<le> 0" "0 \<le> hi" "lo \<le> a" "a \<le> hi"
  shows "lo \<le> go_quot a b \<and> go_quot a b \<le> hi"
proof (cases "a < 0")
  case False
  then have "go_quot a b = a div b" using assms by (simp add: go_quot_nonneg)
  moreover have "a div b \<le> a" using False assms by (simp add: div_le_self_int)
  moreover have "0 \<le> a div b" using False assms by (simp add: pos_imp_zdiv_nonneg_iff)
  ultimately show ?thesis using assms by simp
next
  case True
  then have "go_quot a b = - ((- a) div b)" using assms by (simp add: go_quot_neg)
  moreover have "(- a) div b \<le> - a" using True assms by (simp add: div_le_self_int)
  moreover have "0 \<le> (- a) div b" using True assms by (simp add: pos_imp_zdiv_nonneg_iff)
  ultimately show ?thesis using assms by simp
qed

lemma go_rem_bounds:
  assumes "0 < b"
  shows "\<bar>go_rem a b\<bar> < b"
proof (cases "a < 0")
  case False
  then show ?thesis using assms by (simp add: go_rem_nonneg)
next
  case True
  then have "go_rem a b = - ((- a) mod b)" using assms by (simp add: go_rem_neg)
  moreover have "0 \<le> (- a) mod b" "(- a) mod b < b" using assms by simp_all
  ultimately show ?thesis by simp
qed

section \<open>Decimal rendering\<close>

declare digitsOf.simps [simp del]

lemma digitVal_digitChar: "d < 10 \<Longrightarrow> digitVal (digitChar d) = d"
proof -
  assume "d < 10"
  then have "d \<in> {0, 1, 2, 3, 4, 5, 6, 7, 8, 9}" by auto
  then show ?thesis by (auto simp: digitVal_def digitChar_def)
qed

lemma digitChar_not_minus: "d < 10 \<Longrightarrow> digitChar d \<noteq> CHR ''-''"
proof -
  assume "d < 10"
  then have "d \<in> {0, 1, 2, 3, 4, 5, 6, 7, 8, 9}" by auto
  then show ?thesis by (auto simp: digitChar_def)
qed

lemma decimalDigitsValue_snoc: "decimalDigitsValue (s @ [c]) = 10 * decimalDigitsValue s + digitVal c"
  by (simp add: decimalDigitsValue_def)

lemma decimalDigitsValue_digitsOf: "decimalDigitsValue (digitsOf n) = n"
proof (induction n rule: digitsOf.induct)
  case (1 n)
  show ?case
  proof (cases "n < 10")
    case True
    then show ?thesis
      by (subst digitsOf.simps) (simp add: decimalDigitsValue_def digitVal_digitChar)
  next
    case False
    with 1 have "decimalDigitsValue (digitsOf (n div 10)) = n div 10" by simp
    with False show ?thesis
      by (subst digitsOf.simps) (simp add: decimalDigitsValue_snoc digitVal_digitChar)
  qed
qed

lemma digitsOf_hd: "\<exists>c r. digitsOf n = c # r \<and> c \<noteq> CHR ''-''"
proof (induction n rule: digitsOf.induct)
  case (1 n)
  show ?case
  proof (cases "n < 10")
    case True
    then show ?thesis
      by (subst digitsOf.simps) (simp add: digitChar_not_minus)
  next
    case False
    with 1 obtain c r where "digitsOf (n div 10) = c # r" "c \<noteq> CHR ''-''" by blast
    with False show ?thesis
      by (subst digitsOf.simps) simp
  qed
qed

text \<open>Reading the rendering of an integer gives the integer back.\<close>

lemma decimalValue_FormatInt: "decimalValue (FormatInt i) = i"
proof (cases "i < 0")
  case True
  then show ?thesis by (simp add: FormatInt_def decimalValue_def decimalDigitsValue_digitsOf)
next
  case False
  obtain c r where h: "digitsOf (nat i) = c # r" "c \<noteq> CHR ''-''" using digitsOf_hd by blast
  have "decimalDigitsValue (c # r) = nat i" using decimalDigitsValue_digitsOf [of "nat i"] h(1) by simp
  with False h show ?thesis by (simp add: FormatInt_def decimalValue_def)
qed

section \<open>The router\<close>

subsection \<open>The loop's invariant\<close>



text \<open>
  Either the loop leaves \<^verbatim>\<open>best\<close> and \<^verbatim>\<open>maxOut\<close> as they were, and then no pool quoted
  more than \<^verbatim>\<open>maxOut\<close>; or it ends on a pool of the list whose quote is the final
  \<^verbatim>\<open>maxOut\<close>, every pool before it having quoted strictly less.
\<close>

lemma quoteLoop_cases:
  "quoteLoop quote pools (best, maxOut, logged) = (best', maxOut', logged') \<Longrightarrow>
   (best' = best \<and> maxOut' = maxOut \<and> (\<forall>p \<in> set pools. \<forall>v. quote p = Inr v \<longrightarrow> v \<le> maxOut)) \<or>
   (\<exists>pre b post. pools = pre @ b # post \<and> best' = Some b \<and> quote b = Inr maxOut' \<and> maxOut < maxOut' \<and>
      (\<forall>p \<in> set pre. \<forall>v. quote p = Inr v \<longrightarrow> v < maxOut'))"
proof (induction pools arbitrary: best maxOut logged)
  case Nil
  then show ?case by simp
next
  case (Cons pool rest)
  show ?case
  proof (cases "quote pool")
    case (Inl err)
    with Cons.prems have run: "quoteLoop quote rest (best, maxOut, logged @ [''error quoting: '' @ err])
        = (best', maxOut', logged')" by simp
    from Cons.IH [OF run] show ?thesis
    proof
      assume "best' = best \<and> maxOut' = maxOut \<and> (\<forall>p \<in> set rest. \<forall>v. quote p = Inr v \<longrightarrow> v \<le> maxOut)"
      with Inl show ?thesis by auto
    next
      assume "\<exists>pre b post. rest = pre @ b # post \<and> best' = Some b \<and> quote b = Inr maxOut' \<and>
          maxOut < maxOut' \<and> (\<forall>p \<in> set pre. \<forall>v. quote p = Inr v \<longrightarrow> v < maxOut')"
      then obtain pre b post where h: "rest = pre @ b # post" "best' = Some b" "quote b = Inr maxOut'"
          "maxOut < maxOut'" "\<forall>p \<in> set pre. \<forall>v. quote p = Inr v \<longrightarrow> v < maxOut'" by blast
      have "pool # rest = (pool # pre) @ b # post" using h(1) by simp
      moreover have "\<forall>p \<in> set (pool # pre). \<forall>v. quote p = Inr v \<longrightarrow> v < maxOut'"
        using h(5) Inl by auto
      ultimately show ?thesis using h(2,3,4) by blast
    qed
  next
    case (Inr out)
    show ?thesis
    proof (cases "out > maxOut")
      case True
      with Inr Cons.prems have run: "quoteLoop quote rest (Some pool, out, logged) = (best', maxOut', logged')"
        by simp
      from Cons.IH [OF run] show ?thesis
      proof
        assume a: "best' = Some pool \<and> maxOut' = out \<and> (\<forall>p \<in> set rest. \<forall>v. quote p = Inr v \<longrightarrow> v \<le> out)"
        have "pool # rest = [] @ pool # rest" by simp
        moreover have "\<forall>p \<in> set []. \<forall>v. quote p = Inr v \<longrightarrow> v < maxOut'" by simp
        ultimately show ?thesis using a Inr True by blast
      next
        assume "\<exists>pre b post. rest = pre @ b # post \<and> best' = Some b \<and> quote b = Inr maxOut' \<and>
            out < maxOut' \<and> (\<forall>p \<in> set pre. \<forall>v. quote p = Inr v \<longrightarrow> v < maxOut')"
        then obtain pre b post where h: "rest = pre @ b # post" "best' = Some b" "quote b = Inr maxOut'"
            "out < maxOut'" "\<forall>p \<in> set pre. \<forall>v. quote p = Inr v \<longrightarrow> v < maxOut'" by blast
        have "pool # rest = (pool # pre) @ b # post" using h(1) by simp
        moreover have "\<forall>p \<in> set (pool # pre). \<forall>v. quote p = Inr v \<longrightarrow> v < maxOut'"
          using h(4,5) Inr by auto
        moreover have "maxOut < maxOut'" using True h(4) by simp
        ultimately show ?thesis using h(2,3) by blast
      qed
    next
      case False
      with Inr Cons.prems have run: "quoteLoop quote rest (best, maxOut, logged) = (best', maxOut', logged')"
        by simp
      from Cons.IH [OF run] show ?thesis
      proof
        assume "best' = best \<and> maxOut' = maxOut \<and> (\<forall>p \<in> set rest. \<forall>v. quote p = Inr v \<longrightarrow> v \<le> maxOut)"
        with Inr False show ?thesis by auto
      next
        assume "\<exists>pre b post. rest = pre @ b # post \<and> best' = Some b \<and> quote b = Inr maxOut' \<and>
            maxOut < maxOut' \<and> (\<forall>p \<in> set pre. \<forall>v. quote p = Inr v \<longrightarrow> v < maxOut')"
        then obtain pre b post where h: "rest = pre @ b # post" "best' = Some b" "quote b = Inr maxOut'"
            "maxOut < maxOut'" "\<forall>p \<in> set pre. \<forall>v. quote p = Inr v \<longrightarrow> v < maxOut'" by blast
        have "pool # rest = (pool # pre) @ b # post" using h(1) by simp
        moreover have "\<forall>p \<in> set (pool # pre). \<forall>v. quote p = Inr v \<longrightarrow> v < maxOut'"
          using h(4,5) Inr False by auto
        ultimately show ?thesis using h(2,3,4) by blast
      qed
    qed
  qed
qed

lemma quoteLoop_filter:
  "quoteLoop quote pools (best, maxOut, logged) = (best', maxOut', logged') \<Longrightarrow>
   \<exists>logged''. quoteLoop quote (filter (\<lambda>p. \<not> isl (quote p)) pools) (best, maxOut, others)
      = (best', maxOut', logged'')"
proof (induction pools arbitrary: best maxOut logged)
  case Nil
  then show ?case by simp
next
  case (Cons pool rest)
  show ?case
  proof (cases "quote pool")
    case (Inl err)
    with Cons.prems have run: "quoteLoop quote rest (best, maxOut, logged @ [''error quoting: '' @ err])
        = (best', maxOut', logged')" by simp
    from Cons.IH [OF run] Inl show ?thesis by simp
  next
    case (Inr out)
    show ?thesis
    proof (cases "out > maxOut")
      case True
      with Inr Cons.prems have run: "quoteLoop quote rest (Some pool, out, logged) = (best', maxOut', logged')"
        by simp
      from Cons.IH [OF run] Inr True show ?thesis by simp
    next
      case False
      with Inr Cons.prems have run: "quoteLoop quote rest (best, maxOut, logged) = (best', maxOut', logged')"
        by simp
      from Cons.IH [OF run] Inr False show ?thesis by simp
    qed
  qed
qed

lemma quoteLoop_logged:
  "quoteLoop quote pools (best, maxOut, logged) = (best', maxOut', logged') \<Longrightarrow>
   logged' = logged @ map (\<lambda>p. ''error quoting: '' @ projl (quote p)) (filter (\<lambda>p. isl (quote p)) pools)"
proof (induction pools arbitrary: best maxOut logged)
  case Nil
  then show ?case by simp
next
  case (Cons pool rest)
  show ?case
  proof (cases "quote pool")
    case (Inl err)
    with Cons.prems have run: "quoteLoop quote rest (best, maxOut, logged @ [''error quoting: '' @ err])
        = (best', maxOut', logged')" by simp
    from Cons.IH [OF run] Inl show ?thesis by simp
  next
    case (Inr out)
    show ?thesis
    proof (cases "out > maxOut")
      case True
      with Inr Cons.prems have run: "quoteLoop quote rest (Some pool, out, logged) = (best', maxOut', logged')"
        by simp
      from Cons.IH [OF run] Inr show ?thesis by simp
    next
      case False
      with Inr Cons.prems have run: "quoteLoop quote rest (best, maxOut, logged) = (best', maxOut', logged')"
        by simp
      from Cons.IH [OF run] Inr show ?thesis by simp
    qed
  qed
qed


lemma quoteLoop_initial:
  "\<exists>best maxOut logged. quoteLoop quote pools (None, 0, []) = (best, maxOut, logged)"
  by (metis prod_cases3)

subsection \<open>The best pool is the first maximum\<close>



text \<open>Two pools with the same quote: the first discovered is returned.\<close>

lemma GetBestPool_tie:
  "GetBestPool (\<lambda>p::nat. Inr 7) [4, 9] = ([], Inr (4, 7))"
  by (simp add: GetBestPool_def)

subsection \<open>A failed quote is skipped\<close>

text \<open>
  C7. A pool whose \<^verbatim>\<open>Quote\<close> returns an error is logged and skipped: the result is the
  result on the list without the failing pools, and the log holds one line per failed
  quote, in order. The only error \<^verbatim>\<open>GetBestPool\<close> returns is "no route found", and it
  returns it on the empty list.
\<close>

theorem GetBestPool_skips_failed_quotes:
  "snd (GetBestPool quote pools) = snd (GetBestPool quote (filter (\<lambda>p. \<not> isl (quote p)) pools)) \<and>
   fst (GetBestPool quote pools) =
     map (\<lambda>p. ''error quoting: '' @ projl (quote p)) (filter (\<lambda>p. isl (quote p)) pools) \<and>
   (\<forall>e. snd (GetBestPool quote pools) = Inl e \<longrightarrow> e = ''no route found'') \<and>
   GetBestPool quote [] = ([], Inl ''no route found'')"
proof -
  obtain b m lg where run: "quoteLoop quote pools (None, 0, []) = (b, m, lg)"
    using quoteLoop_initial by blast
  from quoteLoop_filter [OF run, of "[]"] obtain lg' where
    run': "quoteLoop quote (filter (\<lambda>p. \<not> isl (quote p)) pools) (None, 0, []) = (b, m, lg')"
    by blast
  have c1: "snd (GetBestPool quote pools) = snd (GetBestPool quote (filter (\<lambda>p. \<not> isl (quote p)) pools))"
    using run run' by (simp add: GetBestPool_def split: option.splits)
  have c2: "fst (GetBestPool quote pools) =
     map (\<lambda>p. ''error quoting: '' @ projl (quote p)) (filter (\<lambda>p. isl (quote p)) pools)"
    using quoteLoop_logged [OF run] run by (simp add: GetBestPool_def split: option.splits)
  have c3: "\<forall>e. snd (GetBestPool quote pools) = Inl e \<longrightarrow> e = ''no route found''"
    using run by (auto simp: GetBestPool_def split: option.splits)
  have c4: "GetBestPool quote [] = ([], Inl ''no route found'')"
    by (simp add: GetBestPool_def)
  from c1 c2 c3 c4 show ?thesis by blast
qed

theorem GetBestPool_skips_failed_quotes_witness:
  "snd (GetBestPool s6_quote [2, 0, 2, 1]) = snd (GetBestPool s6_quote [0, 1]) \<and>
   snd (GetBestPool s6_quote [2, 0, 2, 1]) = Inr (1, 6000) \<and>
   fst (GetBestPool s6_quote [2, 0, 2, 1]) = [''error quoting: unhealthy'', ''error quoting: unhealthy'']"
  using GetBestPool_skips_failed_quotes [of s6_quote "[2, 0, 2, 1]"]
  by (simp add: GetBestPool_def s6_quote_def)

subsection \<open>Only a strictly positive quote is selected\<close>

text \<open>
  C10. \<^verbatim>\<open>maxOut\<close> starts at zero and only a strictly greater quote replaces it. So a
  returned pool has a strictly positive quote, and when every candidate quotes
  successfully an amount that is zero or negative, the router reports "no route found"
  although nothing failed and nothing was logged.
\<close>

theorem GetBestPool_needs_positive_quote:
  "(\<forall>lg best m. GetBestPool quote pools = (lg, Inr (best, m)) \<longrightarrow> 0 < m \<and> quote best = Inr m) \<and>
   ((\<forall>p \<in> set pools. \<exists>v. quote p = Inr v \<and> v \<le> 0) \<longrightarrow>
      GetBestPool quote pools = ([], Inl ''no route found''))"
proof -
  obtain b m lg where run: "quoteLoop quote pools (None, 0, []) = (b, m, lg)"
    using quoteLoop_initial by blast
  note cases = quoteLoop_cases [OF run]
  have c1: "\<forall>lg best m. GetBestPool quote pools = (lg, Inr (best, m)) \<longrightarrow> 0 < m \<and> quote best = Inr m"
    using cases run by (auto simp: GetBestPool_def split: option.splits)
  have c2: "GetBestPool quote pools = ([], Inl ''no route found'')"
    if all: "\<forall>p \<in> set pools. \<exists>v. quote p = Inr v \<and> v \<le> 0"
  proof -
    have "\<not> (\<exists>pre b' post. pools = pre @ b' # post \<and> quote b' = Inr m \<and> 0 < m)"
    proof
      assume "\<exists>pre b' post. pools = pre @ b' # post \<and> quote b' = Inr m \<and> 0 < m"
      then obtain pre b' post where h: "pools = pre @ b' # post" "quote b' = Inr m" "0 < m" by blast
      from h(1) have "b' \<in> set pools" by simp
      with all h(2) have "m \<le> 0" by fastforce
      with h(3) show False by simp
    qed
    with cases have "b = None" by blast
    moreover have "isl (quote p) = False" if "p \<in> set pools" for p
      using all that by fastforce
    then have "filter (\<lambda>p. isl (quote p)) pools = []" by (simp add: filter_empty_conv)
    with quoteLoop_logged [OF run] have "lg = []" by simp
    ultimately show ?thesis using run by (simp add: GetBestPool_def)
  qed
  from c1 c2 show ?thesis by blast
qed

theorem GetBestPool_needs_positive_quote_witness:
  "GetBestPool (\<lambda>p::nat. if p = 0 then Inr 0 else Inr (- 5)) [0, 1] = ([], Inl ''no route found'')"
proof -
  have "\<forall>p \<in> set [0, 1::nat]. \<exists>v. (if p = 0 then Inr 0 else (Inr (- 5) :: string + int)) = Inr v \<and> v \<le> 0"
    by simp
  with GetBestPool_needs_positive_quote [of "\<lambda>p::nat. if p = 0 then Inr 0 else Inr (- 5)" "[0, 1]"]
  show ?thesis by blast
qed

section \<open>Whirlpool tick arrays\<close>

subsection \<open>Start index of the tick array of a tick\<close>

text \<open>
  Inputs as the callers pass them: a tick spacing that is a positive \<^verbatim>\<open>uint16\<close> and a
  tick between \<^verbatim>\<open>MIN_TICK\<close> and \<^verbatim>\<open>MAX_TICK\<close> (or a non-negative \<^verbatim>\<open>int32\<close>). No
  \<^verbatim>\<open>int64\<close> operation wraps there. \<open>div\<close> on \<open>int\<close> rounds toward minus infinity.
\<close>

lemma getWhirlpoolTickArrayStartIndex_nonneg:
  assumes tk: "0 \<le> tk" "tk < 2 ^ 31" and s: "0 < s" "s < 2 ^ 16"
  shows "getWhirlpoolTickArrayStartIndex tk s = Ok (tk div (88 * s) * (88 * s))"
proof -
  define n where "n = 88 * s"
  have pos: "0 < n" and nb: "n < 88 * 2 ^ 16" using s by (simp_all add: n_def)
  have n1: "wrap64 (s * 88) = n" by (rule wrap64_id [THEN trans]) (use s in \<open>auto simp: n_def\<close>)
  have r: "go_rem tk n = tk mod n" using tk pos by (simp add: go_rem_nonneg)
  have rb: "0 \<le> tk mod n \<and> tk mod n < n" using pos by simp
  have w1: "wrap64 (tk mod n) = tk mod n" by (rule wrap64_id) (use rb nb in auto)
  have e: "tk - tk mod n = tk div n * n"
    by (simp add: minus_mod_eq_div_mult)
  have w2: "wrap64 (tk - tk mod n) = tk - tk mod n"
    by (rule wrap64_id) (use rb tk nb in auto)
  have rm: "rem64 tk n = Ok (tk mod n)" using pos r w1 by (simp add: rem64_def)
  have "getWhirlpoolTickArrayStartIndex tk s = Ok (tk div n * n)"
    unfolding getWhirlpoolTickArrayStartIndex_def getWhirlpoolTickCount_def TICK_ARRAY_SIZE_def n1 rm
    using w2 by (simp add: e)
  then show ?thesis by (simp add: n_def)
qed

lemma getOfficialTickArrayStartIndex_floor:
  assumes tk: "MIN_TICK \<le> tk" "tk \<le> MAX_TICK" and s: "0 < s" "s < 2 ^ 16"
  shows "getOfficialTickArrayStartIndex tk s 0 = Ok (tk div (88 * s) * (88 * s))"
proof -
  define n where "n = 88 * s"
  have pos: "0 < n" and nb: "n < 88 * 2 ^ 16" using s by (simp_all add: n_def)
  have tb: "- 443636 \<le> tk" "tk \<le> 443636" using tk by (simp_all add: MIN_TICK_def MAX_TICK_def)
  have n1: "wrap64 (s * 88) = n" by (rule wrap64_id [THEN trans]) (use s in \<open>auto simp: n_def\<close>)
  have n2: "wrap64 (88 * s) = n" by (rule wrap64_id [THEN trans]) (use s in \<open>auto simp: n_def\<close>)
  have qr: "- 443636 \<le> go_quot tk n \<and> go_quot tk n \<le> 443636"
    using pos tb by (intro go_quot_range) simp_all
  have q: "wrap64 (go_quot tk n) = go_quot tk n" by (rule wrap64_id) (use qr in auto)
  have rb: "\<bar>go_rem tk n\<bar> < n" using pos by (rule go_rem_bounds)
  have r: "wrap64 (go_rem tk n) = go_rem tk n" by (rule wrap64_id) (use rb nb in auto)
  have q1: "wrap64 (go_quot tk n - 1) = go_quot tk n - 1" by (rule wrap64_id) (use qr in auto)
  have fl: "(if tk < 0 \<and> go_rem tk n \<noteq> 0 then go_quot tk n - 1 else go_quot tk n) = tk div n"
    using pos by (rule floor_from_trunc)
  define st where "st = tk div n * n"
  have st_le: "st \<le> tk" and st_gt: "tk < st + n"
  proof -
    have "tk = st + tk mod n" by (simp add: st_def)
    moreover have "0 \<le> tk mod n" "tk mod n < n" using pos by simp_all
    ultimately show "st \<le> tk" "tk < st + n" by linarith+
  qed
  have dr: "- 443637 \<le> tk div n \<and> tk div n \<le> 443636"
  proof -
    have "tk div n = (if tk < 0 \<and> go_rem tk n \<noteq> 0 then go_quot tk n - 1 else go_quot tk n)" using fl by simp
    with qr show ?thesis by (auto split: if_splits)
  qed
  have m0: "wrap64 (tk div n + 0) = tk div n" by (rule wrap64_id [THEN trans]) (use dr in auto)
  have m1: "wrap64 (tk div n * s) = tk div n * s"
  proof -
    have "\<bar>tk div n * s\<bar> \<le> 443637 * 2 ^ 16"
    proof -
      have "\<bar>tk div n\<bar> \<le> 443637" using dr by auto
      moreover have "\<bar>s\<bar> \<le> 2 ^ 16" using s by auto
      ultimately have "\<bar>tk div n\<bar> * \<bar>s\<bar> \<le> 443637 * 2 ^ 16" by (intro mult_mono) auto
      then show ?thesis by (simp add: abs_mult)
    qed
    then show ?thesis by (intro wrap64_id) auto
  qed
  have m2: "wrap64 (tk div n * s * 88) = st"
  proof -
    have e: "tk div n * s * 88 = st" by (simp add: st_def n_def algebra_simps)
    have "wrap64 st = st" by (rule wrap64_id) (use st_le st_gt tb nb in auto)
    with e show ?thesis by simp
  qed
  define m where "m = go_rem MIN_TICK n"
  have mb: "\<bar>m\<bar> < n" unfolding m_def using pos by (rule go_rem_bounds)
  have mneg: "m \<le> 0"
    using pos by (simp add: m_def MIN_TICK_def go_rem_neg)
  have wm: "wrap64 m = m" by (rule wrap64_id) (use mb nb in auto)
  have w3: "wrap64 (m + n) = m + n" by (rule wrap64_id) (use mb nb in auto)
  have w4: "wrap64 (MIN_TICK - (m + n)) = MIN_TICK - (m + n)"
    by (rule wrap64_id) (use mb nb in \<open>auto simp: MIN_TICK_def\<close>)
  have w5: "wrap64 (MAX_TICK + n) = MAX_TICK + n"
    by (rule wrap64_id) (use pos nb in \<open>auto simp: MAX_TICK_def\<close>)
  have w6: "wrap64 (MIN_TICK - (m + n) - n) = MIN_TICK - (m + n) - n"
    by (rule wrap64_id) (use mb nb in \<open>auto simp: MIN_TICK_def\<close>)
  have w6': "wrap64 (MIN_TICK - m - 2 * n) = MIN_TICK - m - 2 * n"
    by (rule wrap64_id) (use mb nb in \<open>auto simp: MIN_TICK_def\<close>)
  have inlo: "\<not> st < MIN_TICK - (m + n) - n"
    using st_gt tb mb mneg by (auto simp: MIN_TICK_def)
  have inhi: "\<not> st > MAX_TICK + n"
    using st_le tb pos by (auto simp: MAX_TICK_def)
  have d: "div64 tk n = Ok (go_quot tk n)" using pos q by (simp add: div64_def)
  have rt: "rem64 tk n = Ok (go_rem tk n)" using pos r by (simp add: rem64_def)
  have rm: "rem64 MIN_TICK n = Ok m" using pos wm by (simp add: rem64_def m_def)
  have m0': "wrap64 (tk div n) = tk div n" using m0 by simp
  have ri: "(if 0 \<le> tk then Ok (go_quot tk n)
       else andThen (rem64 tk n) (\<lambda>r. if r \<noteq> 0 then Ok (wrap64 (go_quot tk n - 1)) else Ok (go_quot tk n)))
     = Ok (tk div n)"
  proof (cases "0 \<le> tk")
    case True
    with fl show ?thesis by simp
  next
    case False
    with fl q1 show ?thesis by (auto simp: rt split: if_splits)
  qed
  have body: "andThen (Ok (tk div n)) (\<lambda>realIndex.
         let startTickIndex = wrap64 (wrap64 (wrap64 (realIndex + 0) * s) * 88);
             ticksInArray = n
         in andThen (rem64 MIN_TICK ticksInArray) (\<lambda>m.
            let minTickIndex = wrap64 (MIN_TICK - wrap64 (m + ticksInArray));
                maxBoundary = wrap64 (MAX_TICK + ticksInArray);
                minBoundary = wrap64 (minTickIndex - ticksInArray)
            in if startTickIndex < minBoundary
               then Err (''startTickIndex is extremely out of bounds (too small) - ''
                         @ FormatInt startTickIndex @ '' (min boundary: '' @ FormatInt minBoundary @ '')'')
               else if startTickIndex > maxBoundary
               then Err (''startTickIndex is extremely out of bounds (too large) - ''
                         @ FormatInt startTickIndex @ '' (max boundary: '' @ FormatInt maxBoundary @ '')'')
               else Ok startTickIndex)) = Ok st"
    using inlo inhi by (simp add: m0' m1 m2 rm w3 w4 w5 w6 w6' Let_def)
  have "getOfficialTickArrayStartIndex tk s 0 = Ok st"
    unfolding getOfficialTickArrayStartIndex_def TICK_ARRAY_SIZE_def n1 n2
    by (simp only: Let_def d andThen_Ok ri body [unfolded Let_def andThen_Ok])
  then show ?thesis by (simp add: st_def n_def)
qed

lemma floor_start_bounds:
  assumes "0 < (n::int)"
  shows "tk div n * n \<le> tk \<and> tk < tk div n * n + n"
proof -
  have "tk = tk div n * n + tk mod n" by simp
  moreover have "0 \<le> tk mod n" "tk mod n < n" using assms by simp_all
  ultimately show ?thesis by linarith
qed

text \<open>
  \<^verbatim>\<open>getOfficialTickArrayStartIndex\<close> with offset 0 returns the floored start index: the
  tick lies in the array that starts there.
\<close>

lemma getOfficialTickArrayStartIndex_contains:
  assumes "MIN_TICK \<le> tk" "tk \<le> MAX_TICK" "0 < s" "s < 2 ^ 16"
  shows "\<exists>start. getOfficialTickArrayStartIndex tk s 0 = Ok start \<and> start \<le> tk \<and> tk < start + 88 * s"
proof -
  have "0 < 88 * s" using assms by simp
  from floor_start_bounds [OF this, of tk] getOfficialTickArrayStartIndex_floor [OF assms]
  show ?thesis by simp
qed

text \<open>
  C2. The helper \<^verbatim>\<open>getWhirlpoolTickArrayStartIndex\<close> subtracts Go's remainder, which has
  the sign of the tick, so for a negative tick that is not a multiple of the array width
  it rounds toward zero: tick \<open>-1\<close> with spacing 1 gets start index 0, not \<open>-88\<close>. Its
  caller \<^verbatim>\<open>whirlpoolTickRange\<close> passes \<^verbatim>\<open>MIN_TICK\<close>: with spacing 10 the lower boundary
  comes out as \<open>-443520\<close>, above \<^verbatim>\<open>MIN_TICK\<close>, where the floored start is \<open>-444400\<close>.
  \<^verbatim>\<open>getOfficialTickArrayStartIndex\<close> floors on the same inputs.
\<close>

theorem getWhirlpoolTickArrayStartIndex_truncates:
  "getWhirlpoolTickArrayStartIndex (- 1) 1 = Ok 0 \<and>
   getOfficialTickArrayStartIndex (- 1) 1 0 = Ok (- 88) \<and>
   getWhirlpoolTickArrayStartIndex MIN_TICK 10 = Ok (- 443520) \<and>
   getOfficialTickArrayStartIndex MIN_TICK 10 0 = Ok (- 444400) \<and>
   whirlpoolTickRange 10 = Ok (444400, - 443520)"
proof -
  have a: "getWhirlpoolTickArrayStartIndex (- 1) 1 = Ok 0"
    by (simp add: getWhirlpoolTickArrayStartIndex_def getWhirlpoolTickCount_def TICK_ARRAY_SIZE_def
        rem64_def wrap64_def go_rem_def go_quot_def)
  have b: "getOfficialTickArrayStartIndex (- 1) 1 0 = Ok (- 88)"
    using getOfficialTickArrayStartIndex_floor [of "- 1" 1] by (simp add: MIN_TICK_def MAX_TICK_def)
  have c: "getWhirlpoolTickArrayStartIndex MIN_TICK 10 = Ok (- 443520)"
    by (simp add: getWhirlpoolTickArrayStartIndex_def getWhirlpoolTickCount_def TICK_ARRAY_SIZE_def
        rem64_def wrap64_def go_rem_def go_quot_def MIN_TICK_def)
  have d: "getOfficialTickArrayStartIndex MIN_TICK 10 0 = Ok (- 444400)"
    using getOfficialTickArrayStartIndex_floor [of MIN_TICK 10] by (simp add: MIN_TICK_def MAX_TICK_def)
  have e: "whirlpoolTickRange 10 = Ok (444400, - 443520)"
    by (simp add: whirlpoolTickRange_def maxWhirlpoolTickInTickarrayBitmap_def TICK_ARRAY_BITMAP_SIZE_def
        getWhirlpoolTickArrayStartIndex_def getWhirlpoolTickCount_def TICK_ARRAY_SIZE_def
        rem64_def wrap64_def go_rem_def go_quot_def MIN_TICK_def MAX_TICK_def)
  from a b c d e show ?thesis by blast
qed

subsection \<open>Seeds of the tick-array address\<close>

text \<open>
  C6. Whatever the address derivation does, \<^verbatim>\<open>DeriveWhirlpoolTickArrayPDA\<close> hands it
  the three seeds "tick_array", the pool's bytes, and the ASCII bytes of the decimal
  rendering of the start index, and returns its address. The rendering reads back as the
  index. For start index \<open>-88\<close> the third seed is the three bytes of "-88" (45, 56, 56),
  not the little-endian bytes of the integer.
\<close>

theorem DeriveWhirlpoolTickArrayPDA_seeds:
  "DeriveWhirlpoolTickArrayPDA findProgramAddress whirlpoolPubkey startTickIndex =
     (case findProgramAddress
             [bytesOf ''tick_array'', whirlpoolPubkey, bytesOf (FormatInt startTickIndex)]
             ORCA_WHIRLPOOL_PROGRAM_ID of
        Inl err \<Rightarrow> Err (''failed to find program address for tick array: '' @ err)
      | Inr (pda, bump) \<Rightarrow> Ok pda) \<and>
   decimalValue (FormatInt startTickIndex) = startTickIndex \<and>
   FormatInt (- 88) = ''-88'' \<and>
   bytesOf (FormatInt (- 88)) = [45, 56, 56] \<and>
   DeriveWhirlpoolTickArrayPDA seedsEcho whirlpoolPubkey (- 88) =
     Ok (bytesOf ''tick_array'' @ whirlpoolPubkey @ [45, 56, 56]) \<and>
   bytesOf (FormatInt (- 88)) \<noteq> littleEndianBytes 4 (- 88) \<and>
   bytesOf (FormatInt (- 88)) \<noteq> littleEndianBytes 8 (- 88)"
proof -
  have f: "FormatInt (- 88) = ''-88''"
    by (simp add: FormatInt_def digitsOf.simps digitChar_def)
  have b: "bytesOf (FormatInt (- 88)) = [45, 56, 56]"
    by (simp add: f bytesOf_def)
  have d: "DeriveWhirlpoolTickArrayPDA findProgramAddress whirlpoolPubkey startTickIndex =
     (case findProgramAddress
             [bytesOf ''tick_array'', whirlpoolPubkey, bytesOf (FormatInt startTickIndex)]
             ORCA_WHIRLPOOL_PROGRAM_ID of
        Inl err \<Rightarrow> Err (''failed to find program address for tick array: '' @ err)
      | Inr (pda, bump) \<Rightarrow> Ok pda)"
    by (simp add: DeriveWhirlpoolTickArrayPDA_def TICK_ARRAY_SEED_def Let_def)
  have e: "DeriveWhirlpoolTickArrayPDA seedsEcho whirlpoolPubkey (- 88) =
     Ok (bytesOf ''tick_array'' @ whirlpoolPubkey @ [45, 56, 56])"
    by (simp add: DeriveWhirlpoolTickArrayPDA_def TICK_ARRAY_SEED_def Let_def seedsEcho_def b)
  have l3: "length (bytesOf (FormatInt (- 88))) = 3"
    by (simp add: b)
  have l4: "length (littleEndianBytes 4 v) = 4" for v
    by (simp add: eval_nat_numeral)
  have l8: "length (littleEndianBytes 8 v) = 8" for v
    by (simp add: eval_nat_numeral)
  have n4: "bytesOf (FormatInt (- 88)) \<noteq> littleEndianBytes 4 (- 88)"
  proof
    assume "bytesOf (FormatInt (- 88)) = littleEndianBytes 4 (- 88)"
    then have "length (bytesOf (FormatInt (- 88))) = length (littleEndianBytes 4 (- 88))" by simp
    with l3 l4 show False by simp
  qed
  have n8: "bytesOf (FormatInt (- 88)) \<noteq> littleEndianBytes 8 (- 88)"
  proof
    assume "bytesOf (FormatInt (- 88)) = littleEndianBytes 8 (- 88)"
    then have "length (bytesOf (FormatInt (- 88))) = length (littleEndianBytes 8 (- 88))" by simp
    with l3 l8 show False by simp
  qed
  from d decimalValue_FormatInt f b e n4 n8 show ?thesis by blast
qed

theorem DeriveWhirlpoolTickArrayPDA_seeds_witness:
  "DeriveWhirlpoolTickArrayPDA seedsEcho [1, 2, 3] (- 88) = Ok (bytesOf ''tick_array'' @ [1, 2, 3] @ [45, 56, 56]) \<and>
   DeriveWhirlpoolTickArrayPDA (\<lambda>seeds programId. Inl ''no bump'') [1, 2, 3] 5632 =
     Err ''failed to find program address for tick array: no bump''"
  using DeriveWhirlpoolTickArrayPDA_seeds [of seedsEcho "[1, 2, 3]" 0]
    DeriveWhirlpoolTickArrayPDA_seeds [of "\<lambda>seeds programId. Inl ''no bump''" "[1, 2, 3]" 5632]
  by simp

section \<open>Meteora DLMM utilities\<close>

subsection \<open>Bin array index\<close>

lemma BinIDToBinArrayIndex_eq: "BinIDToBinArrayIndex binID = sint binID div 70"
proof -
  define a where "a = sint binID"
  have lo: "- (2 ^ 31) \<le> a" and hi: "a < 2 ^ 31"
    using sint_ge [of binID] sint_lt [of binID] by (simp_all add: a_def)
  have qb: "- (2 ^ 31) \<le> go_quot a 70 \<and> go_quot a 70 \<le> 2 ^ 31 - 1"
    using lo hi by (intro go_quot_range) simp_all
  have rb: "\<bar>go_rem a 70\<bar> < 70" by (rule go_rem_bounds) simp
  have q: "wrap32 (go_quot a 70) = go_quot a 70"
    using qb by (intro wrap32_id) auto
  have r: "wrap32 (go_rem a 70) = go_rem a 70"
    using rb by (intro wrap32_id) auto
  have fl: "(if a < 0 \<and> go_rem a 70 \<noteq> 0 then go_quot a 70 - 1 else go_quot a 70) = a div 70"
    by (rule floor_from_trunc) simp
  have dlo: "- (2 ^ 31) \<le> a div 70"
  proof -
    have "(- (2 ^ 31)) div 70 \<le> a div 70" using lo by (intro zdiv_mono1) simp_all
    then show ?thesis by simp
  qed
  have q1: "wrap32 (go_quot a 70 - 1) = go_quot a 70 - 1" if "a < 0" "go_rem a 70 \<noteq> 0"
  proof -
    from fl that have "go_quot a 70 - 1 = a div 70" by simp
    with dlo qb show ?thesis by (intro wrap32_id) auto
  qed
  show ?thesis
    using fl q r q1 by (auto simp: BinIDToBinArrayIndex_def MaxBinPerArray_def a_def Let_def)
qed

text \<open>
  C9. For every 32-bit bin id, read as a signed integer, \<^verbatim>\<open>BinIDToBinArrayIndex\<close> is the
  quotient by 70 rounded toward minus infinity (\<open>div\<close> on \<open>int\<close> floors); bin id \<open>-1\<close>
  lies in bin array \<open>-1\<close>.
\<close>

theorem BinIDToBinArrayIndex_floor:
  "BinIDToBinArrayIndex binID = sint binID div 70 \<and>
   70 * BinIDToBinArrayIndex binID \<le> sint binID \<and>
   sint binID < 70 * BinIDToBinArrayIndex binID + 70 \<and>
   BinIDToBinArrayIndex (- 1) = - 1"
proof -
  have split: "sint binID = 70 * (sint binID div 70) + sint binID mod 70" by simp
  have "0 \<le> sint binID mod 70" and "sint binID mod 70 < 70" by simp_all
  with split have "70 * (sint binID div 70) \<le> sint binID"
    and "sint binID < 70 * (sint binID div 70) + 70" by linarith+
  then show ?thesis by (simp add: BinIDToBinArrayIndex_eq)
qed

theorem BinIDToBinArrayIndex_floor_witness:
  "BinIDToBinArrayIndex (- 71) = - 2 \<and> BinIDToBinArrayIndex 69 = 0 \<and> BinIDToBinArrayIndex (- 70) = - 1"
  using BinIDToBinArrayIndex_floor [of "- 71"] BinIDToBinArrayIndex_floor [of 69]
    BinIDToBinArrayIndex_floor [of "- 70"]
  by simp

subsection \<open>The bin price\<close>

declare PowLoop.simps [simp del]

lemma One_u128_eq: "One_u128 = 2 ^ 64"
  by (simp add: One_u128_def u128_Lsh_def ScaleOffset_def)

text \<open>
  When both \<^verbatim>\<open>result\<close> and \<^verbatim>\<open>current\<close> have a non-zero high word, the first turn of
  the loop returns an error: "multiplication overflow" for an odd exponent, "square
  overflow" for an even one.
\<close>

lemma PowLoop_overflow:
  assumes "u128_Hi result > 0" "u128_Hi current > 0" "exp > 0"
  shows "PowLoop result current exp =
     Err (if exp mod 2 = 1 then ''multiplication overflow'' else ''square overflow'')"
proof (cases "exp mod 2 = 1")
  case True
  with assms show ?thesis by (subst PowLoop.simps) simp
next
  case False
  then have "exp mod 2 = 0" by presburger
  with assms have "exp div 2 > 0" by presburger
  with assms False show ?thesis by (subst PowLoop.simps) simp
qed

lemma Pow_u128_overflow:
  assumes "u128_Hi base > 0" "pwr \<noteq> 0"
  shows "Pow_u128 base pwr =
     Err (if unat (if sint pwr < 0 then - pwr else pwr) mod 2 = 1
          then ''multiplication overflow'' else ''square overflow'')"
proof -
  define pwr' where "pwr' = (if sint pwr < 0 then - pwr else pwr)"
  have "pwr' \<noteq> 0" using assms(2) by (simp add: pwr'_def)
  then have "unat pwr' > 0" by (simp add: unat_gt_0)
  moreover have "u128_Hi One_u128 > 0" by (simp add: One_u128_eq u128_Hi_def)
  ultimately have "PowLoop One_u128 base (unat pwr') =
     Err (if unat pwr' mod 2 = 1 then ''multiplication overflow'' else ''square overflow'')"
    using assms(1) by (intro PowLoop_overflow)
  then show ?thesis using assms(2) by (simp add: Pow_u128_def Let_def pwr'_def)
qed

lemma priceBase_Hi: "u128_Hi (priceBase binStep) > 0"
  by (simp add: priceBase_def u128_Hi_def div_greater_zero_iff)

lemma GetPriceFromID_base:
  "u128_Div (u128_Lsh (unat binStep) ScaleOffset) BasisPointMax = Ok (unat binStep * 2 ^ 64 div 10000)"
  "u128_Add One_u128 (unat binStep * 2 ^ 64 div 10000) = Ok (priceBase binStep)"
proof -
  have sb: "unat binStep < 2 ^ 16" using unsigned_less [of binStep, where ?'a = nat] by simp
  then have "unat binStep * 2 ^ 64 < 2 ^ 16 * 2 ^ 64" by simp
  then have lt: "unat binStep * 2 ^ 64 < 2 ^ 80" by simp
  then have sh: "u128_Lsh (unat binStep) ScaleOffset = unat binStep * 2 ^ 64"
    by (simp add: u128_Lsh_def ScaleOffset_def)
  have "unat binStep * 2 ^ 64 div 10000 \<le> unat binStep * 2 ^ 64" by simp
  with lt have "unat binStep * 2 ^ 64 div 10000 < 2 ^ 80" by linarith
  then have sum: "2 ^ 64 + unat binStep * 2 ^ 64 div 10000 < (2::nat) ^ 128" by simp
  show "u128_Div (u128_Lsh (unat binStep) ScaleOffset) BasisPointMax = Ok (unat binStep * 2 ^ 64 div 10000)"
    by (simp add: sh u128_Div_def BasisPointMax_def)
  show "u128_Add One_u128 (unat binStep * 2 ^ 64 div 10000) = Ok (priceBase binStep)"
    using sum by (simp add: u128_Add_def One_u128_eq priceBase_def)
qed

lemma GetPriceFromID_unfold:
  "GetPriceFromID activeID binStep =
     (case Pow_u128 (priceBase binStep) activeID of
        Ok result \<Rightarrow> Ok result
      | Err e \<Rightarrow> Err (''power calculation error: '' @ e)
      | Panic p \<Rightarrow> Panic p)"
  unfolding GetPriceFromID_def Let_def GetPriceFromID_base andThen_Ok
  by (simp add: BasisPointMax_def)

lemma GetPriceFromID_zero: "GetPriceFromID 0 binStep = Ok (2 ^ 64)"
  by (simp add: GetPriceFromID_unfold Pow_u128_def One_u128_eq)

text \<open>
  Every base \<^verbatim>\<open>GetPriceFromID\<close> builds is at least \<open>2 ^ 64\<close>, and so is \<^verbatim>\<open>One\<close>: for
  every bin id other than 0 and every bin step, \<^verbatim>\<open>GetPriceFromID\<close> returns an error.
\<close>

lemma GetPriceFromID_nonzero:
  assumes "activeID \<noteq> 0"
  shows "GetPriceFromID activeID binStep =
     Err (''power calculation error: '' @
          (if unat (if sint activeID < 0 then - activeID else activeID) mod 2 = 1
           then ''multiplication overflow'' else ''square overflow''))"
  by (simp add: GetPriceFromID_unfold Pow_u128_overflow [OF priceBase_Hi assms])

text \<open>
  C3. The price of bin 1 at step 25 should be \<open>(1 + 25/10000)\<close> in Q64.64, the base
  itself, and the price of bin 2 above it; \<^verbatim>\<open>GetPriceFromID\<close> returns an error for both,
  and for bin \<open>-1\<close>. Only bin 0 has a price.
\<close>

theorem GetPriceFromID_fails_off_zero:
  "GetPriceFromID 1 25 = Err ''power calculation error: multiplication overflow'' \<and>
   GetPriceFromID 2 25 = Err ''power calculation error: square overflow'' \<and>
   GetPriceFromID (- 1) 25 = Err ''power calculation error: multiplication overflow'' \<and>
   GetPriceFromID 0 25 = Ok (2 ^ 64) \<and>
   priceBase 25 = 18492860933893825495"
  by (simp add: GetPriceFromID_nonzero GetPriceFromID_zero priceBase_def)

subsection \<open>\<^verbatim>\<open>MulDiv\<close>, \<^verbatim>\<open>MulShr\<close>, \<^verbatim>\<open>ShlDiv\<close> and \<^verbatim>\<open>Pow\<close>\<close>

lemma big_DivMod_pos: "0 < d \<Longrightarrow> big_DivMod p d = Ok (p div d, p mod d)"
  by (simp add: big_DivMod_def Let_def minus_mod_eq_mult_div)

lemma MulDiv_pos:
  assumes "0 < d"
  shows "MulDiv x y d RoundingDown = Ok (x * y div d)"
    and "MulDiv x y d RoundingUp = Ok (if x * y mod d = 0 then x * y div d else x * y div d + 1)"
  using assms by (simp_all add: MulDiv_def big_DivMod_pos)

lemma MulDiv_zero: "MulDiv x y 0 rounding = Panic DivideByZero"
  by (simp add: MulDiv_def big_DivMod_def)

lemma MulShr_eq: "MulShr x y offset rounding = MulDiv x y (2 ^ unat offset) rounding"
  by (simp add: MulShr_def Let_def)

lemma ShlDiv_eq: "ShlDiv x y offset rounding = MulDiv x (2 ^ unat offset) y rounding"
  by (simp add: ShlDiv_def Let_def)

lemma floor_exact:
  assumes "0 < (d::int)"
  shows "p div d * d \<le> p \<and> p < (p div d + 1) * d"
proof -
  define q r where "q = p div d" and "r = p mod d"
  have e: "p = q * d + r" by (simp add: q_def r_def)
  have rb: "0 \<le> r" "r < d" using assms by (simp_all add: r_def)
  have "(q + 1) * d = q * d + d" by (simp add: algebra_simps)
  with e rb have "q * d \<le> p \<and> p < (q + 1) * d" by linarith
  then show ?thesis by (simp add: q_def)
qed

lemma ceil_exact:
  assumes "0 < (d::int)"
  shows "((if p mod d = 0 then p div d else p div d + 1) - 1) * d < p \<and>
         p \<le> (if p mod d = 0 then p div d else p div d + 1) * d"
proof -
  define q r where "q = p div d" and "r = p mod d"
  have e: "p = q * d + r" by (simp add: q_def r_def)
  have rb: "0 \<le> r" "r < d" using assms by (simp_all add: r_def)
  have m: "(q + 1) * d = q * d + d" "(q - 1) * d = q * d - d" by (simp_all add: algebra_simps)
  have "((if r = 0 then q else q + 1) - 1) * d < p \<and> p \<le> (if r = 0 then q else q + 1) * d"
  proof (cases "r = 0")
    case True
    with e m assms show ?thesis by simp
  next
    case False
    with e m rb show ?thesis by simp
  qed
  then show ?thesis unfolding q_def r_def .
qed


lemma MulDiv_not_Err: "MulDiv x y d rounding \<noteq> Err e"
  by (cases "d = 0") (simp_all add: MulDiv_def big_DivMod_def Let_def)

text \<open>A value returned by the loop of \<^verbatim>\<open>Pow\<close> is the exact product, below \<open>2 ^ 128\<close>.\<close>

lemma PowLoop_exact:
  "PowLoop result current exp = Ok v \<Longrightarrow> result < 2 ^ 128 \<Longrightarrow> v = result * current ^ exp \<and> v < 2 ^ 128"
proof (induction result current exp arbitrary: v rule: PowLoop.induct)
  case (1 result current exp)
  show ?case
  proof (cases "exp > 0")
    case False
    with "1.prems" show ?thesis by (subst (asm) PowLoop.simps) simp
  next
    case pos: True
    define step1 where "step1 = (if exp mod 2 = 1
               then (if u128_Hi result > 0 \<and> u128_Hi current > 0
                     then Err ''multiplication overflow''
                     else u128_Mul result current)
               else Ok result)"
    define cont where "cont = (\<lambda>result'.
             (if exp div 2 > 0 then
                (if u128_Hi current > 0 then Err ''square overflow''
                 else (case u128_Mul current current of
                         Ok current' \<Rightarrow> PowLoop result' current' (exp div 2)
                       | Err e \<Rightarrow> Err e
                       | Panic p \<Rightarrow> Panic p))
              else PowLoop result' current (exp div 2)))"
    have unf: "PowLoop result current exp =
        (case step1 of Ok result' \<Rightarrow> cont result' | Err e \<Rightarrow> Err e | Panic p \<Rightarrow> Panic p)"
      unfolding step1_def cont_def using pos by (subst PowLoop.simps) simp
    from "1.prems"(1) unf obtain result' where s1: "step1 = Ok result'" and k: "cont result' = Ok v"
      by (cases step1) auto
    have r': "result' = result * current ^ (exp mod 2) \<and> result' < 2 ^ 128"
      using s1 "1.prems"(2)
      by (auto simp: step1_def u128_Mul_def split: if_splits)
    show ?thesis
    proof (cases "exp div 2 > 0")
      case True
      from k True obtain current' where
        c: "u128_Mul current current = Ok current'" and nhi: "\<not> u128_Hi current > 0"
        and run: "PowLoop result' current' (exp div 2) = Ok v"
        by (cases "u128_Mul current current") (auto simp: cont_def split: if_splits)
      have c2: "current' = current * current" using c by (auto simp: u128_Mul_def split: if_splits)
      from "1.IH"(1) [OF pos s1 [unfolded step1_def] True nhi c run] r'
      have "v = result' * current' ^ (exp div 2) \<and> v < 2 ^ 128" by simp
      moreover have "current ^ exp = current ^ (exp mod 2) * (current * current) ^ (exp div 2)"
      proof -
        have "current ^ (exp mod 2) * (current ^ 2) ^ (exp div 2) = current ^ (exp mod 2 + 2 * (exp div 2))"
          by (simp only: power_add power_mult)
        also have "exp mod 2 + 2 * (exp div 2) = exp" by simp
        finally show ?thesis by (simp add: power2_eq_square)
      qed
      ultimately show ?thesis using r' c2 by simp
    next
      case False
      with pos have e1: "exp = 1" by presburger
      from k False have run: "PowLoop result' current (exp div 2) = Ok v"
        by (simp add: cont_def)
      from False have "exp div 2 = 0" by simp
      with run have "PowLoop result' current 0 = Ok v" by simp
      then have "v = result'" by (subst (asm) PowLoop.simps) simp
      with r' e1 show ?thesis by simp
    qed
  qed
qed

lemma Pow_u128_exact:
  assumes "Pow_u128 base pwr = Ok v"
  shows "v = 2 ^ 64 * base ^ unat pwr \<and> v < 2 ^ 128"
proof (cases "pwr = 0")
  case True
  with assms show ?thesis by (simp add: Pow_u128_def One_u128_eq)
next
  case False
  from assms False have pos: "\<not> sint pwr < 0"
    by (auto simp: Pow_u128_def Let_def split: outcome.splits if_splits)
  with assms False have "PowLoop One_u128 base (unat pwr) = Ok v"
    by (auto simp: Pow_u128_def Let_def split: outcome.splits if_splits)
  from PowLoop_exact [OF this] show ?thesis by (simp add: One_u128_eq)
qed

text \<open>
  With a small base the checks of \<^verbatim>\<open>Pow\<close> on the high words let a product through that
  does not fit: \<^verbatim>\<open>uint128.Mul\<close> panics.
\<close>

lemma Pow_u128_panics_example: "Pow_u128 8192 5 = Panic Uint128Overflow"
  by (simp add: Pow_u128_def One_u128_eq PowLoop.simps u128_Hi_def u128_Mul_def)

text \<open>
  C4, as the code has it. \<^verbatim>\<open>MulDiv\<close>, \<^verbatim>\<open>MulShr\<close> and \<^verbatim>\<open>ShlDiv\<close> work on integers of
  any size, so no result is unrepresentable and none of them ever returns an error. With
  a positive divisor \<^verbatim>\<open>MulDiv\<close> returns the quotient of the exact product, rounded down
  or up as asked; \<^verbatim>\<open>MulShr\<close> is \<^verbatim>\<open>MulDiv\<close> by \<open>2 ^ offset\<close> and always returns a value;
  \<^verbatim>\<open>ShlDiv\<close> is \<^verbatim>\<open>MulDiv\<close> of \<open>x\<close> and \<open>2 ^ offset\<close> by \<open>y\<close>. A value returned by
  \<^verbatim>\<open>Pow\<close> is exactly \<open>2 ^ 64 * base ^ power\<close> and fits in 128 bits.
\<close>

theorem kernel_results_exact:
  "(0 < d \<longrightarrow>
      (\<exists>v. MulDiv x y d RoundingDown = Ok v \<and> v * d \<le> x * y \<and> x * y < (v + 1) * d) \<and>
      (\<exists>v. MulDiv x y d RoundingUp = Ok v \<and> (v - 1) * d < x * y \<and> x * y \<le> v * d)) \<and>
   MulShr x y offset rounding = MulDiv x y (2 ^ unat offset) rounding \<and>
   ShlDiv x y offset rounding = MulDiv x (2 ^ unat offset) y rounding \<and>
   (\<exists>v. MulShr x y offset rounding = Ok v) \<and>
   (\<forall>e. MulDiv x y d rounding \<noteq> Err e) \<and>
   (\<forall>e. MulShr x y offset rounding \<noteq> Err e) \<and>
   (\<forall>e. ShlDiv x y offset rounding \<noteq> Err e) \<and>
   (\<forall>v. Pow_u128 base pwr = Ok v \<longrightarrow> v = 2 ^ 64 * base ^ unat pwr \<and> v < 2 ^ 128)"
proof -
  have a: "(\<exists>v. MulDiv x y d RoundingDown = Ok v \<and> v * d \<le> x * y \<and> x * y < (v + 1) * d) \<and>
      (\<exists>v. MulDiv x y d RoundingUp = Ok v \<and> (v - 1) * d < x * y \<and> x * y \<le> v * d)" if "0 < d"
    using MulDiv_pos [OF that, of x y] floor_exact [OF that, of "x * y"] ceil_exact [OF that, of "x * y"]
    by simp
  have p: "(0::int) < 2 ^ unat offset" by simp
  have b: "\<exists>v. MulShr x y offset rounding = Ok v"
    using MulDiv_pos [OF p, of x y] by (cases rounding) (simp_all add: MulShr_eq)
  have c: "\<forall>v. Pow_u128 base pwr = Ok v \<longrightarrow> v = 2 ^ 64 * base ^ unat pwr \<and> v < 2 ^ 128"
    using Pow_u128_exact by blast
  from a b c MulShr_eq ShlDiv_eq MulDiv_not_Err show ?thesis by metis
qed

theorem kernel_results_exact_witness:
  "MulDiv 7 3 2 RoundingDown = Ok 10 \<and> MulDiv 7 3 2 RoundingUp = Ok 11 \<and>
   MulShr 3 5 1 RoundingDown = Ok 7 \<and> ShlDiv 1 3 2 RoundingUp = Ok 2 \<and>
   Pow_u128 3 2 = Ok (9 * 2 ^ 64)"
proof -
  have pw: "Pow_u128 3 2 = Ok (9 * 2 ^ 64)"
    by (simp add: Pow_u128_def One_u128_eq PowLoop.simps u128_Hi_def u128_Mul_def)
  have "(0::int) < 2" by simp
  with kernel_results_exact [of 2 7 3 1 RoundingDown 3 2] pw
    kernel_results_exact [of 3 1 4 2 RoundingUp 3 2]
  show ?thesis
    by (simp add: MulDiv_def big_DivMod_def MulShr_def ShlDiv_def)
qed

text \<open>
  C4 as the specification states it fails. A zero divisor is not answered with a
  division-by-zero error: \<^verbatim>\<open>MulDiv\<close> and \<^verbatim>\<open>ShlDiv\<close> panic in \<^verbatim>\<open>big.Int.DivMod\<close>. And a
  result beyond every fixed width, here \<open>2 ^ 256\<close>, is returned without an overflow
  error.
\<close>

theorem kernel_errors_counterexample:
  "MulDiv 1 1 0 RoundingDown = Panic DivideByZero \<and>
   ShlDiv 1 0 64 RoundingUp = Panic DivideByZero \<and>
   MulDiv (2 ^ 128) (2 ^ 128) 1 RoundingDown = Ok (2 ^ 256) \<and>
   MulShr (2 ^ 128) (2 ^ 128) 0 RoundingDown = Ok (2 ^ 256)"
  by (simp add: MulDiv_def big_DivMod_def MulShr_def ShlDiv_def)

section \<open>Account decoding\<close>

subsection \<open>Readers\<close>

lemma readsD_ok:
  assumes "reads k s rd" "offset + k \<le> length data \<or> k = 0"
  obtains v where "\<And>extra. rd (data @ extra) offset = Ok (v, offset + k + s)"
  using assms unfolding reads_def by blast

lemma readsD_fail:
  assumes "reads k s rd" "k \<noteq> 0" "\<not> offset + k \<le> length data"
  obtains p where "rd data offset = Panic p"
  using assms unfolding reads_def by blast

lemma reads_eq: "reads k s rd \<Longrightarrow> k = k' \<Longrightarrow> reads k' s rd"
  by simp

lemma reads_Ok: "reads 0 0 (\<lambda>data offset. Ok (v, offset))"
  by (simp add: reads_def)

lemma reads_Ok_skip: "reads 0 s (\<lambda>data offset. Ok (v, offset + s))"
  by (simp add: reads_def)

lemma reads_readByte: "reads 1 0 readByte"
  by (auto simp: reads_def readByte_def indexAt_def nth_append)

lemma reads_readBytes: "0 < k \<Longrightarrow> reads k 0 (readBytes k)"
  by (auto simp: reads_def readBytes_def sliceAt_def)

lemma reads_readPublicKey: "reads 32 0 readPublicKey"
  using reads_readBytes [of 32] by (simp add: readPublicKey_def [abs_def])

lemma reads_readUint: "0 < k \<Longrightarrow> reads k 0 (readUint k)"
proof -
  assume "0 < k"
  have "readUint k data offset = (if offset + k \<le> length data
      then Ok (leValue (take k (drop offset data)), offset + k) else Panic SliceBoundsOutOfRange)" for data offset
    by (simp add: readUint_def readBytes_def sliceAt_def)
  with \<open>0 < k\<close> show ?thesis by (auto simp: reads_def)
qed

lemma reads_bind:
  assumes r1: "reads k1 0 rd1"
    and pos: "0 < k1"
    and r2: "\<And>v. reads k2 s (g v)"
  shows "reads (k1 + k2) s (\<lambda>data offset. andThen (rd1 data offset) (\<lambda>(v, offset'). g v data offset'))"
  unfolding reads_def
proof (intro allI conjI impI)
  fix data :: "byte list" and offset :: nat
  assume "offset + (k1 + k2) \<le> length data \<or> k1 + k2 = 0"
  with pos have le: "offset + (k1 + k2) \<le> length data" by simp
  then have le1: "offset + k1 \<le> length data \<or> k1 = 0" by simp
  from readsD_ok [OF r1 le1] obtain v where v: "\<And>extra. rd1 (data @ extra) offset = Ok (v, offset + k1 + 0)"
    by blast
  have v': "rd1 (data @ extra) offset = Ok (v, offset + k1)" for extra
    using v [of extra] by simp
  have le2: "(offset + k1) + k2 \<le> length data \<or> k2 = 0" using le by simp
  from readsD_ok [OF r2 le2] obtain w where w: "\<And>extra. g v (data @ extra) (offset + k1) = Ok (w, offset + k1 + k2 + s)"
    by blast
  have w': "g v (data @ extra) (offset + k1) = Ok (w, offset + (k1 + k2) + s)" for extra
    using w [of extra] by (simp only: add.assoc [symmetric])
  have "andThen (rd1 (data @ extra) offset) (\<lambda>(v, offset'). g v (data @ extra) offset')
      = Ok (w, offset + (k1 + k2) + s)" for extra
    by (simp only: v' andThen_Ok prod.case w')
  then show "\<exists>v. \<forall>extra. andThen (rd1 (data @ extra) offset) (\<lambda>(v, offset'). g v (data @ extra) offset')
      = Ok (v, offset + (k1 + k2) + s)"
    by blast
next
  fix data :: "byte list" and offset :: nat
  assume "k1 + k2 \<noteq> 0 \<and> \<not> offset + (k1 + k2) \<le> length data"
  then have nle: "\<not> offset + (k1 + k2) \<le> length data" by simp
  show "\<exists>p. andThen (rd1 data offset) (\<lambda>(v, offset'). g v data offset') = Panic p"
  proof (cases "offset + k1 \<le> length data")
    case False
    from pos have "k1 \<noteq> 0" by simp
    from readsD_fail [OF r1 this False] obtain p where "rd1 data offset = Panic p" by blast
    then have "andThen (rd1 data offset) (\<lambda>(v, offset'). g v data offset') = Panic p"
      by (simp only: andThen_Panic)
    then show ?thesis by blast
  next
    case True
    then have "offset + k1 \<le> length data \<or> k1 = 0" by simp
    from readsD_ok [OF r1 this] obtain v where v: "\<And>extra. rd1 (data @ extra) offset = Ok (v, offset + k1 + 0)"
      by blast
    from v [of "[]"] have v0: "rd1 data offset = Ok (v, offset + k1)" by simp
    have n2: "\<not> (offset + k1) + k2 \<le> length data" using nle by linarith
    with True have "k2 \<noteq> 0" by auto
    from readsD_fail [OF r2 this n2] obtain p where p: "g v data (offset + k1) = Panic p" by blast
    have "andThen (rd1 data offset) (\<lambda>(v, offset'). g v data offset') = Panic p"
      by (simp only: v0 andThen_Ok prod.case p)
    then show ?thesis by blast
  qed
qed


lemma reads_parseCoreStates: "reads 229 0 (parseCoreStates l)"
  unfolding parseCoreStates_def [abs_def]
  by (rule reads_eq, (rule reads_bind reads_readByte reads_readPublicKey reads_readUint reads_Ok | simp)+)

lemma reads_parseLiquidityStates: "reads 153 7 (parseLiquidityStates l)"
  unfolding parseLiquidityStates_def [abs_def]
  by (rule reads_eq, (rule reads_bind reads_readByte reads_readPublicKey reads_readUint reads_Ok_skip | simp)+)

lemma reads_readRewardInfo: "reads 169 0 readRewardInfo"
  unfolding readRewardInfo_def [abs_def]
  by (rule reads_eq, (rule reads_bind reads_readByte reads_readPublicKey reads_readUint reads_Ok | simp)+)


lemma reads_Ok_skip2: "s = s1 + s2 \<Longrightarrow> reads 0 s (\<lambda>data offset. Ok (v, offset + s1 + s2))"
  by (simp add: reads_def add.assoc)

lemma reads_parseFeeAndOtherStates: "reads 64 448 (parseFeeAndOtherStates l)"
  unfolding parseFeeAndOtherStates_def [abs_def]
  by (rule reads_eq, (rule reads_bind reads_readUint reads_Ok_skip2 | simp)+)

lemma reads_readMany:
  assumes r: "reads k 0 rd" and pos: "0 < k"
  shows "reads (n * k) 0 (readMany n rd)"
proof (induction n)
  case 0
  show ?case by (simp add: reads_def)
next
  case (Suc n)
  have "reads (k + n * k) 0 (\<lambda>data offset. andThen (rd data offset) (\<lambda>(v, offset').
      andThen (readMany n rd data offset') (\<lambda>(vs, offset''). Ok (v # vs, offset''))))"
  proof (rule reads_bind [OF r pos])
    fix v
    show "reads (n * k) 0 (\<lambda>data offset'. andThen (readMany n rd data offset') (\<lambda>(vs, offset''). Ok (v # vs, offset'')))"
    proof (cases "n = 0")
      case True
      then show ?thesis by (simp add: reads_def)
    next
      case False
      with pos have "0 < n * k" by simp
      have "reads (n * k + 0) 0 (\<lambda>data offset'. andThen (readMany n rd data offset')
          (\<lambda>(vs, offset''). (\<lambda>vs data offset. Ok (v # vs, offset)) vs data offset''))"
        by (rule reads_bind [OF Suc.IH \<open>0 < n * k\<close>]) (rule reads_Ok)
      then show ?thesis by simp
    qed
  qed
  moreover have "readMany (Suc n) rd = (\<lambda>data offset. andThen (rd data offset) (\<lambda>(v, offset').
      andThen (readMany n rd data offset') (\<lambda>(vs, offset''). Ok (v # vs, offset''))))"
    by (auto simp: fun_eq_iff andThen_def split: outcome.splits)
  ultimately show ?case by simp
qed

lemma reads_readWhirlpoolRewardInfo: "reads 128 0 readWhirlpoolRewardInfo"
  unfolding readWhirlpoolRewardInfo_def [abs_def]
  by (rule reads_eq, (rule reads_bind reads_readByte reads_readPublicKey reads_readUint reads_Ok | simp)+)

lemma decodes_eq: "decodes k rd \<Longrightarrow> k = k' \<Longrightarrow> decodes k' rd"
  by simp

lemma decodes_last:
  assumes r1: "reads k1 s1 rd1" and pos: "0 < k1"
  shows "decodes k1 (\<lambda>data offset. andThen (rd1 data offset) (\<lambda>(v, offset'). Ok (f v)))"
  unfolding decodes_def
proof (intro allI conjI impI)
  fix data :: "byte list" and offset :: nat
  assume "offset + k1 \<le> length data"
  then have "offset + k1 \<le> length data \<or> k1 = 0" by simp
  from readsD_ok [OF r1 this] obtain v where v: "\<And>extra. rd1 (data @ extra) offset = Ok (v, offset + k1 + s1)"
    by blast
  have "andThen (rd1 (data @ extra) offset) (\<lambda>(v, offset'). Ok (f v)) = Ok (f v)" for extra
    by (simp only: v andThen_Ok prod.case)
  then show "\<exists>v. \<forall>extra. andThen (rd1 (data @ extra) offset) (\<lambda>(v, offset'). Ok (f v)) = Ok v"
    by blast
next
  fix data :: "byte list" and offset :: nat
  assume nle: "\<not> offset + k1 \<le> length data"
  from pos have "k1 \<noteq> 0" by simp
  from readsD_fail [OF r1 this nle] obtain p where "rd1 data offset = Panic p" by blast
  then have "andThen (rd1 data offset) (\<lambda>(v, offset'). Ok (f v)) = Panic p"
    by (simp only: andThen_Panic)
  then show "\<exists>p. andThen (rd1 data offset) (\<lambda>(v, offset'). Ok (f v)) = Panic p" by blast
qed

lemma decodes_bind:
  assumes r1: "reads k1 s1 rd1"
    and pos: "0 < k1"
    and r2: "\<And>v. decodes k2 (g v)"
    and pos2: "0 < k2"
  shows "decodes (k1 + s1 + k2) (\<lambda>data offset. andThen (rd1 data offset) (\<lambda>(v, offset'). g v data offset'))"
  unfolding decodes_def
proof (intro allI conjI impI)
  fix data :: "byte list" and offset :: nat
  assume le: "offset + (k1 + s1 + k2) \<le> length data"
  then have "offset + k1 \<le> length data \<or> k1 = 0" by simp
  from readsD_ok [OF r1 this] obtain v where v: "\<And>extra. rd1 (data @ extra) offset = Ok (v, offset + k1 + s1)"
    by blast
  have le2: "(offset + k1 + s1) + k2 \<le> length data" using le by linarith
  with r2 [of v] obtain w where w: "\<And>extra. g v (data @ extra) (offset + k1 + s1) = Ok w"
    unfolding decodes_def by blast
  have "andThen (rd1 (data @ extra) offset) (\<lambda>(v, offset'). g v (data @ extra) offset') = Ok w" for extra
    by (simp only: v andThen_Ok prod.case w)
  then show "\<exists>v. \<forall>extra. andThen (rd1 (data @ extra) offset) (\<lambda>(v, offset'). g v (data @ extra) offset') = Ok v"
    by blast
next
  fix data :: "byte list" and offset :: nat
  assume nle: "\<not> offset + (k1 + s1 + k2) \<le> length data"
  show "\<exists>p. andThen (rd1 data offset) (\<lambda>(v, offset'). g v data offset') = Panic p"
  proof (cases "offset + k1 \<le> length data")
    case False
    from pos have "k1 \<noteq> 0" by simp
    from readsD_fail [OF r1 this False] obtain p where "rd1 data offset = Panic p" by blast
    then have "andThen (rd1 data offset) (\<lambda>(v, offset'). g v data offset') = Panic p"
      by (simp only: andThen_Panic)
    then show ?thesis by blast
  next
    case True
    then have "offset + k1 \<le> length data \<or> k1 = 0" by simp
    from readsD_ok [OF r1 this] obtain v where v: "\<And>extra. rd1 (data @ extra) offset = Ok (v, offset + k1 + s1)"
      by blast
    from v [of "[]"] have v0: "rd1 data offset = Ok (v, offset + k1 + s1)" by simp
    have n2: "\<not> (offset + k1 + s1) + k2 \<le> length data" using nle by linarith
    with r2 [of v] obtain p where p: "g v data (offset + k1 + s1) = Panic p"
      unfolding decodes_def by blast
    have "andThen (rd1 data offset) (\<lambda>(v, offset'). g v data offset') = Panic p"
      by (simp only: v0 andThen_Ok prod.case p)
    then show ?thesis by blast
  qed
qed

lemma decodes_CLMMPool_fields: "decodes 1088 (CLMMPool_fields l)"
  unfolding CLMMPool_fields_def [abs_def]
  by (rule decodes_eq,
      (rule decodes_bind decodes_last reads_parseCoreStates reads_parseLiquidityStates
            reads_parseFeeAndOtherStates
            reads_readMany [OF reads_readRewardInfo] reads_readMany [OF reads_readUint] | simp)+)

lemma decodes_WhirlpoolPool_fields: "decodes 645 (WhirlpoolPool_fields pool)"
  unfolding WhirlpoolPool_fields_def [abs_def]
  by (rule decodes_eq,
      (rule decodes_bind decodes_last reads_readPublicKey reads_readBytes reads_readUint
            reads_readMany [OF reads_readWhirlpoolRewardInfo] | simp)+)

subsection \<open>The two pool decoders\<close>

lemma decodes_enough:
  assumes d: "decodes k dec" and n: "8 + k \<le> length data0" and pos: "0 < k"
  shows "\<exists>v. \<forall>extra. dec (if length (data0 @ extra) > 8 then drop 8 (data0 @ extra) else data0 @ extra) 0 = Ok v"
proof -
  have "0 + k \<le> length (drop 8 data0)" using n by simp
  with d obtain v where v: "\<And>extra. dec (drop 8 data0 @ extra) 0 = Ok v"
    unfolding decodes_def by blast
  have "dec (if length (data0 @ extra) > 8 then drop 8 (data0 @ extra) else data0 @ extra) 0 = Ok v"
    for extra using n pos v [of extra] by simp
  then show ?thesis by blast
qed

lemma decodes_short:
  assumes d: "decodes k dec" and n: "length data0 < 8 + k" and k: "8 < k"
  shows "\<exists>p. dec (if length data0 > 8 then drop 8 data0 else data0) 0 = Panic p"
proof -
  have "\<not> 0 + k \<le> length (if length data0 > 8 then drop 8 data0 else data0)"
    using n k by auto
  with d show ?thesis unfolding decodes_def by blast
qed

lemma CLMMPool_Decode_enough:
  assumes "1096 \<le> length data"
  shows "\<exists>l'. \<forall>extra. CLMMPool_Decode l (data @ extra) = Ok (l', None)"
proof -
  from decodes_enough [OF decodes_CLMMPool_fields, of data l] assms
  obtain v where "\<And>extra. CLMMPool_fields l
      (if length (data @ extra) > 8 then drop 8 (data @ extra) else data @ extra) 0 = Ok v"
    by auto
  then have "CLMMPool_Decode l (data @ extra) = Ok (v, None)" for extra
    by (simp only: CLMMPool_Decode_def Let_def andThen_Ok)
  then show ?thesis by blast
qed

lemma CLMMPool_Decode_short:
  assumes "length data < 1096"
  shows "\<exists>p. CLMMPool_Decode l data = Panic p"
proof -
  from decodes_short [OF decodes_CLMMPool_fields, of data l] assms
  obtain p where "CLMMPool_fields l (if length data > 8 then drop 8 data else data) 0 = Panic p"
    by auto
  then have "CLMMPool_Decode l data = Panic p"
    by (simp only: CLMMPool_Decode_def Let_def andThen_Panic)
  then show ?thesis by blast
qed

lemma WhirlpoolPool_Decode_enough:
  assumes "653 \<le> length data"
  shows "\<exists>pool'. \<forall>extra. WhirlpoolPool_Decode pool (data @ extra) = Ok (pool', None)"
proof -
  from decodes_enough [OF decodes_WhirlpoolPool_fields, of data pool] assms
  obtain v where "\<And>extra. WhirlpoolPool_fields pool
      (if length (data @ extra) > 8 then drop 8 (data @ extra) else data @ extra) 0 = Ok v"
    by auto
  then have "WhirlpoolPool_Decode pool (data @ extra) = Ok (v, None)" for extra
    by (simp only: WhirlpoolPool_Decode_def Let_def andThen_Ok)
  then show ?thesis by blast
qed

lemma WhirlpoolPool_Decode_short:
  assumes "length data < 653"
  shows "\<exists>p. WhirlpoolPool_Decode pool data = Panic p"
proof -
  from decodes_short [OF decodes_WhirlpoolPool_fields, of data pool] assms
  obtain p where "WhirlpoolPool_fields pool (if length data > 8 then drop 8 data else data) 0 = Panic p"
    by auto
  then have "WhirlpoolPool_Decode pool data = Panic p"
    by (simp only: WhirlpoolPool_Decode_def Let_def andThen_Panic)
  then show ?thesis by blast
qed

text \<open>
  C5, as the code has it. Neither decoder ever returns an error: \<^verbatim>\<open>Decode\<close> has no
  length check and no error value. A blob with at least the bytes the decoder reads
  (1096 for \<^verbatim>\<open>CLMMPool\<close>, whose two trailing paddings are skipped unread, so fewer than
  the 1544 of the layout; 653 for \<^verbatim>\<open>WhirlpoolPool\<close>) decodes with a nil error, and the
  result is the same whatever bytes follow.
\<close>

theorem Decode_no_error_value:
  "(1096 \<le> length data \<longrightarrow> (\<exists>l'. \<forall>extra. CLMMPool_Decode l (data @ extra) = Ok (l', None))) \<and>
   (653 \<le> length data \<longrightarrow> (\<exists>pool'. \<forall>extra. WhirlpoolPool_Decode pool (data @ extra) = Ok (pool', None))) \<and>
   (\<forall>e. CLMMPool_Decode l data \<noteq> Err e) \<and>
   (\<forall>e. WhirlpoolPool_Decode pool data \<noteq> Err e) \<and>
   (\<forall>l' err. CLMMPool_Decode l data = Ok (l', err) \<longrightarrow> err = None) \<and>
   (\<forall>pool' err. WhirlpoolPool_Decode pool data = Ok (pool', err) \<longrightarrow> err = None)"
proof -
  have c: "(\<forall>e. CLMMPool_Decode l data \<noteq> Err e) \<and>
           (\<forall>l' err. CLMMPool_Decode l data = Ok (l', err) \<longrightarrow> err = None)"
  proof (cases "1096 \<le> length data")
    case True
    from CLMMPool_Decode_enough [OF True, of l] obtain l' where
      "\<And>extra. CLMMPool_Decode l (data @ extra) = Ok (l', None)" by blast
    from this [of "[]"] show ?thesis by simp
  next
    case False
    then have "length data < 1096" by simp
    from CLMMPool_Decode_short [OF this, of l] show ?thesis by auto
  qed
  have w: "(\<forall>e. WhirlpoolPool_Decode pool data \<noteq> Err e) \<and>
           (\<forall>pool' err. WhirlpoolPool_Decode pool data = Ok (pool', err) \<longrightarrow> err = None)"
  proof (cases "653 \<le> length data")
    case True
    from WhirlpoolPool_Decode_enough [OF True, of pool] obtain pool' where
      "\<And>extra. WhirlpoolPool_Decode pool (data @ extra) = Ok (pool', None)" by blast
    from this [of "[]"] show ?thesis by simp
  next
    case False
    then have "length data < 653" by simp
    from WhirlpoolPool_Decode_short [OF this, of pool] show ?thesis by auto
  qed
  from c w CLMMPool_Decode_enough [of data l] WhirlpoolPool_Decode_enough [of data pool]
  show ?thesis by blast
qed

theorem Decode_no_error_value_witness:
  "\<forall>l pool. (\<exists>l'. CLMMPool_Decode l (replicate 1096 0 @ [1, 2, 3]) = Ok (l', None)) \<and>
     (\<exists>pool'. WhirlpoolPool_Decode pool (replicate 1096 0 @ [1, 2, 3]) = Ok (pool', None))"
proof (intro allI)
  fix l pool
  have "1096 \<le> length (replicate 1096 (0::byte))" "653 \<le> length (replicate 1096 (0::byte))"
    by simp_all
  with Decode_no_error_value [of "replicate 1096 0" l pool]
  show "(\<exists>l'. CLMMPool_Decode l (replicate 1096 0 @ [1, 2, 3]) = Ok (l', None)) \<and>
     (\<exists>pool'. WhirlpoolPool_Decode pool (replicate 1096 0 @ [1, 2, 3]) = Ok (pool', None))"
    by blast
qed

text \<open>
  C5 as the specification states it fails. The empty blob makes both decoders
  panic, where the claim promises a decode error instead of a crash; and a blob of 1096
  bytes, 448 short of the \<^verbatim>\<open>CLMMPool\<close> layout, decodes with a nil error.
\<close>

theorem Decode_short_counterexample:
  "(\<forall>l. CLMMPool_Decode l [] = Panic IndexOutOfRange) \<and>
   (\<forall>pool. WhirlpoolPool_Decode pool [] = Panic SliceBoundsOutOfRange) \<and>
   (\<forall>l. \<exists>l'. CLMMPool_Decode l (replicate 1096 0) = Ok (l', None)) \<and>
   length (replicate 1096 (0::byte)) < CLMMPool_Span \<and>
   (\<forall>l. \<exists>p. CLMMPool_Decode l (replicate 1095 0) = Panic p) \<and>
   (\<forall>pool. \<exists>p. WhirlpoolPool_Decode pool (replicate 652 0) = Panic p)"
proof -
  have a: "CLMMPool_Decode l [] = Panic IndexOutOfRange" for l
    by (simp add: CLMMPool_Decode_def CLMMPool_fields_def parseCoreStates_def readByte_def indexAt_def)
  have b: "WhirlpoolPool_Decode pool [] = Panic SliceBoundsOutOfRange" for pool
    by (simp add: WhirlpoolPool_Decode_def WhirlpoolPool_fields_def readPublicKey_def readBytes_def sliceAt_def)
  have c: "\<exists>l'. CLMMPool_Decode l (replicate 1096 0) = Ok (l', None)" for l
  proof -
    have "1096 \<le> length (replicate 1096 (0::byte))" by simp
    from CLMMPool_Decode_enough [OF this, of l] obtain l' where
      "\<And>extra. CLMMPool_Decode l (replicate 1096 0 @ extra) = Ok (l', None)" by blast
    from this [of "[]"] show ?thesis by auto
  qed
  have d: "\<exists>p. CLMMPool_Decode l (replicate 1095 0) = Panic p" for l
    by (rule CLMMPool_Decode_short) simp
  have e: "\<exists>p. WhirlpoolPool_Decode pool (replicate 652 0) = Panic p" for pool
    by (rule WhirlpoolPool_Decode_short) simp
  from a b c d e show ?thesis by (simp add: CLMMPool_Span_def)
qed

section \<open>The CLMM swap computation\<close>















end
